(* ===== verification/Prelude.thy ===== *)
theory Prelude
  imports Main "HOL-Library.Word" "HOL-Library.Signed_Division"
begin

text \<open>
  Shared vocabulary of the development.

  A C++ function that may throw is a function into \<open>'a result\<close>: \<open>Inl e\<close> is the
  exception \<open>e\<close> (its class and its message), \<open>Inr v\<close> a normal return.
  \<open>SignedOverflow\<close> is not an exception of the program: it marks an evaluation whose
  \<^verbatim>\<open>int64_t\<close> arithmetic leaves the 64-bit range, which C++ leaves undefined.
  \<open>and_then\<close> sequences two steps, \<open>throw_if\<close> is a guard
  \<^verbatim>\<open>if (b) throw e;\<close>, \<open>map_result\<close> and \<open>fold_result\<close> are the loops whose body
  may throw.
\<close>

section \<open>Results\<close>

datatype cpp_error =
    InvalidArgument string
  | OutOfRange string
  | RuntimeError string
  | SignedOverflow

type_synonym 'a result = "cpp_error + 'a"

named_theorems result_simps \<open>rewriting of result-valued code\<close>
named_theorems arith64 \<open>checked 64-bit arithmetic\<close>

definition and_then :: "'a result \<Rightarrow> ('a \<Rightarrow> 'b result) \<Rightarrow> 'b result" where
  "and_then m f = (case m of Inl e \<Rightarrow> Inl e | Inr x \<Rightarrow> f x)"

definition throw_if :: "bool \<Rightarrow> cpp_error \<Rightarrow> unit result" where
  "throw_if b e = (if b then Inl e else Inr ())"

definition returns :: "'a result \<Rightarrow> bool" where
  "returns m \<longleftrightarrow> (\<exists>x. m = Inr x)"

lemma and_then_Inl [simp]: "and_then (Inl e) f = Inl e"
  by (simp add: and_then_def)

lemma and_then_Inr [simp]: "and_then (Inr x) f = f x"
  by (simp add: and_then_def)

lemma and_then_eq_Inr [result_simps]:
  "and_then m f = Inr y \<longleftrightarrow> (\<exists>x. m = Inr x \<and> f x = Inr y)"
  by (cases m) auto

lemma and_then_eq_Inl [result_simps]:
  "and_then m f = Inl e \<longleftrightarrow> m = Inl e \<or> (\<exists>x. m = Inr x \<and> f x = Inl e)"
  by (cases m) auto

lemma and_then_assoc: "and_then (and_then m f) g = and_then m (\<lambda>x. and_then (f x) g)"
  by (cases m) auto

lemma throw_if_eq_Inr [simp]: "throw_if b e = Inr u \<longleftrightarrow> \<not> b"
  by (simp add: throw_if_def)

lemma throw_if_eq_Inl [simp]: "throw_if b e = Inl e' \<longleftrightarrow> b \<and> e' = e"
  by (auto simp: throw_if_def)

lemma throw_if_True [simp]: "throw_if True e = Inl e"
  by (simp add: throw_if_def)

lemma throw_if_False [simp]: "throw_if False e = Inr ()"
  by (simp add: throw_if_def)

lemma returns_Inr [simp]: "returns (Inr x)"
  by (simp add: returns_def)

lemma returns_Inl [simp]: "\<not> returns (Inl e)"
  by (simp add: returns_def)

fun map_result :: "('a \<Rightarrow> 'b result) \<Rightarrow> 'a list \<Rightarrow> 'b list result" where
  "map_result f [] = Inr []"
| "map_result f (x # xs) =
     and_then (f x) (\<lambda>y. and_then (map_result f xs) (\<lambda>ys. Inr (y # ys)))"

fun fold_result :: "('a \<Rightarrow> 's \<Rightarrow> 's result) \<Rightarrow> 'a list \<Rightarrow> 's \<Rightarrow> 's result" where
  "fold_result f [] s = Inr s"
| "fold_result f (x # xs) s = and_then (f x s) (fold_result f xs)"

lemma map_result_Inr:
  assumes "\<And>x. x \<in> set xs \<Longrightarrow> f x = Inr (g x)"
  shows "map_result f xs = Inr (map g xs)"
  using assms by (induction xs) auto

lemma map_result_length: "map_result f xs = Inr ys \<Longrightarrow> length ys = length xs"
  by (induction xs arbitrary: ys) (auto simp: result_simps)

lemma map_result_iff: "map_result f xs = Inr ys \<longleftrightarrow> list_all2 (\<lambda>x y. f x = Inr y) xs ys"
  by (induction xs arbitrary: ys) (auto simp: result_simps list_all2_Cons1)

lemma map_result_all:
  assumes "map_result f xs = Inr ys" "\<And>x y. x \<in> set xs \<Longrightarrow> f x = Inr y \<Longrightarrow> P y"
  shows "list_all P ys"
  using assms unfolding map_result_iff list_all_length list_all2_conv_all_nth by (metis nth_mem)

lemma fold_result_append:
  "fold_result f (xs @ ys) s = and_then (fold_result f xs s) (fold_result f ys)"
proof (induction xs arbitrary: s)
  case Nil
  show ?case by simp
next
  case (Cons x xs)
  show ?case by (cases "f x s") (simp_all add: Cons.IH)
qed

lemma fold_result_inv:
  assumes "fold_result f xs s = Inr s'" "P s"
    and "\<And>x s s'. x \<in> set xs \<Longrightarrow> P s \<Longrightarrow> f x s = Inr s' \<Longrightarrow> P s'"
  shows "P s'"
  using assms by (induction xs arbitrary: s) (auto simp: result_simps)

section \<open>64-bit integers\<close>

definition i64_ok :: "int \<Rightarrow> bool" where
  "i64_ok x \<longleftrightarrow> - (2 ^ 63) \<le> x \<and> x < 2 ^ 63"

definition in_i64 :: "int \<Rightarrow> int result" where
  "in_i64 x = (if i64_ok x then Inr x else Inl SignedOverflow)"

definition mul64 :: "int \<Rightarrow> int \<Rightarrow> int result" where
  "mul64 a b = in_i64 (a * b)"

definition add64 :: "int \<Rightarrow> int \<Rightarrow> int result" where
  "add64 a b = in_i64 (a + b)"

lemma in_i64_eq_Inr [arith64, simp]: "in_i64 x = Inr y \<longleftrightarrow> i64_ok x \<and> y = x"
  by (auto simp: in_i64_def)

lemma in_i64_ok [simp]: "i64_ok x \<Longrightarrow> in_i64 x = Inr x"
  by (simp add: in_i64_def)

lemma i64_ok_between [intro]: "0 \<le> x \<Longrightarrow> x \<le> y \<Longrightarrow> i64_ok y \<Longrightarrow> i64_ok x"
  by (simp add: i64_ok_def)

text \<open>
  C++ division truncates towards zero (\<open>sdiv\<close>, \<open>smod\<close>); on the non-negative operands the
  code reaches, it is the Euclidean one.
\<close>

lemma sdiv_nonneg: "0 \<le> a \<Longrightarrow> 0 \<le> b \<Longrightarrow> a sdiv b = a div (b :: int)"
  by (cases "a = 0"; cases "b = 0") (auto simp: signed_divide_int_def sgn_if)

lemma smod_nonneg: "0 \<le> a \<Longrightarrow> 0 \<le> b \<Longrightarrow> a smod b = a mod (b :: int)"
  by (cases "a = 0"; cases "b = 0")
    (auto simp: signed_modulo_int_def signed_divide_int_def sgn_if minus_div_mult_eq_mod)

section \<open>Mixed-radix positions\<close>

lemma radix_div [simp]: "0 \<le> b \<Longrightarrow> b < B \<Longrightarrow> (a * B + b) div B = (a :: int)"
  by simp

lemma radix_mod [simp]: "0 \<le> b \<Longrightarrow> b < B \<Longrightarrow> (a * B + b) mod B = (b :: int)"
  by simp

lemma radix_nonneg: "0 \<le> a \<Longrightarrow> 0 \<le> b \<Longrightarrow> 0 \<le> B \<Longrightarrow> 0 \<le> a * B + (b :: int)"
  by simp

lemma radix_less:
  assumes "a < A" "b < B" "0 \<le> (B :: int)"
  shows "a * B + b < A * B"
proof -
  have "a * B + b < (a + 1) * B"
    using assms(2) by (simp add: algebra_simps)
  also have "\<dots> \<le> A * B"
    using assms by (intro mult_right_mono) auto
  finally show ?thesis .
qed

lemma radix_less_iff:
  assumes "0 \<le> b" "b < B" "0 \<le> b'" "b' < (B :: int)"
  shows "a * B + b < a' * B + b' \<longleftrightarrow> a < a' \<or> (a = a' \<and> b < b')"
proof (cases a a' rule: linorder_cases)
  case less
  then have "a * B + b < a' * B"
    using assms by (intro radix_less) auto
  with less assms show ?thesis by simp
next
  case equal
  then show ?thesis by simp
next
  case greater
  then have "a' * B + b' < a * B"
    using assms by (intro radix_less) auto
  with greater assms show ?thesis by simp
qed

lemma div_less_if:
  assumes "0 < b" "a < c * (b :: int)"
  shows "a div b < c"
proof (rule ccontr)
  assume "\<not> a div b < c"
  then have "c * b \<le> a div b * b"
    using assms(1) by (intro mult_right_mono) auto
  moreover have "a div b * b \<le> a"
    using assms(1) pos_mod_sign [of b a] div_mult_mod_eq [of a b] by linarith
  ultimately show False using assms(2) by linarith
qed

section \<open>Lists\<close>

lemma list_eq_take_drop: "xs = take n xs @ take m (drop n xs) @ drop (n + m) xs"
  by (metis append_take_drop_id drop_drop add.commute)

text \<open>A doubly nested loop as one list.\<close>

lemma nested_loop:
  "concat (map (\<lambda>i. map (f i) [0..<n]) [0..<m]) = map (\<lambda>k. f (k div n) (k mod n)) [0..<m * n]"
proof (induction m)
  case (Suc m)
  have "map (f m) [0..<n] = map (\<lambda>k. f (k div n) (k mod n)) [m * n..<m * n + n]"
    by (rule nth_equalityI) (auto simp: div_mult_self3)
  moreover have "[0..<Suc m * n] = [0..<m * n] @ [m * n..<m * n + n]"
    using upt_add_eq_append [of 0 "m * n" n] by (simp add: add.commute)
  ultimately show ?case using Suc by simp
qed simp

end
