(* ===== verification/Cxx_String.thy ===== *)
theory Cxx_String
  imports Prelude "HOL-Library.Char_ord" "HOL-Library.List_Lexorder"
begin

text \<open>
  The parts of the C++ standard library's strings the program uses:
  \<^verbatim>\<open>std::string\<close> is a list of 8-bit characters; \<open>str_find\<close>, \<open>str_rfind\<close> are
  \<^verbatim>\<open>find\<close> and \<^verbatim>\<open>rfind\<close> (None is \<^verbatim>\<open>npos\<close>), \<open>substr\<close> is
  \<^verbatim>\<open>substr(pos, n)\<close>, \<open>to_string\<close> is \<^verbatim>\<open>std::to_string\<close> and stream output of an
  integer, \<open>stoll\<close> is \<^verbatim>\<open>std::stoll\<close> in base 10 with its two exceptions. \<open>map_emplace\<close>
  is insertion into a \<^verbatim>\<open>std::map\<close>, kept as its in-order list of pairs.
\<close>

section \<open>Characters and numbers\<close>

definition char_code :: "char \<Rightarrow> nat" where
  "char_code c = of_char c"

definition is_digit :: "char \<Rightarrow> bool" where
  "is_digit c \<longleftrightarrow> 48 \<le> char_code c \<and> char_code c \<le> 57"

definition is_space :: "char \<Rightarrow> bool" where
  "is_space c \<longleftrightarrow> char_code c = 32 \<or> (9 \<le> char_code c \<and> char_code c \<le> 13)"

definition digit_char :: "nat \<Rightarrow> char" where
  "digit_char d = char_of (48 + d)"

definition digit_value :: "char \<Rightarrow> nat" where
  "digit_value c = char_code c - 48"

fun show_nat :: "nat \<Rightarrow> string" where
  "show_nat n = (if n < 10 then [digit_char n] else show_nat (n div 10) @ [digit_char (n mod 10)])"

declare show_nat.simps [simp del]

definition to_string :: "int \<Rightarrow> string" where
  "to_string n = (if n < 0 then CHR ''-'' # show_nat (nat (- n)) else show_nat (nat n))"

definition read_digits :: "string \<Rightarrow> nat" where
  "read_digits ds = foldl (\<lambda>n c. 10 * n + digit_value c) 0 ds"

definition stoll :: "string \<Rightarrow> int result" where
  "stoll s =
     (let body = dropWhile is_space s;
          (neg, digits) =
            (case body of
               [] \<Rightarrow> (False, [])
             | c # cs \<Rightarrow> if c = CHR ''-'' then (True, cs)
                         else if c = CHR ''+'' then (False, cs) else (False, c # cs));
          ds = takeWhile is_digit digits
      in if ds = [] then Inl (InvalidArgument ''stoll'')
         else let n = int (read_digits ds); v = (if neg then - n else n)
              in if i64_ok v then Inr v else Inl (OutOfRange ''stoll''))"

lemma char_code_less: "char_code c < 256"
  using nat_of_char_less_256 [of c] by (simp add: char_code_def)

lemma char_code_inject [simp]: "char_code a = char_code b \<longleftrightarrow> a = b"
  by (simp add: char_code_def)

lemma char_code_digit_char [simp]: "d < 10 \<Longrightarrow> char_code (digit_char d) = 48 + d"
  by (simp add: char_code_def digit_char_def)

lemma digit_value_digit_char [simp]: "d < 10 \<Longrightarrow> digit_value (digit_char d) = d"
  by (simp add: digit_value_def)

lemma is_digit_digit_char [simp]: "d < 10 \<Longrightarrow> is_digit (digit_char d)"
  by (simp add: is_digit_def)

lemma show_nat_digits: "c \<in> set (show_nat n) \<Longrightarrow> is_digit c"
proof (induction n rule: show_nat.induct)
  case (1 n)
  then show ?case
    by (cases "n < 10") (auto simp: show_nat.simps [of n])
qed

lemma show_nat_nonempty [simp]: "show_nat n \<noteq> []"
  by (simp add: show_nat.simps [of n])

lemma read_digits_show_nat [simp]: "read_digits (show_nat n) = n"
proof (induction n rule: show_nat.induct)
  case (1 n)
  show ?case
  proof (cases "n < 10")
    case True
    then show ?thesis by (simp add: show_nat.simps [of n] read_digits_def)
  next
    case False
    with 1 show ?thesis by (simp add: show_nat.simps [of n] read_digits_def)
  qed
qed

lemma digit_not_special:
  "is_digit c \<Longrightarrow> c \<noteq> CHR ''-'' \<and> c \<noteq> CHR ''+'' \<and> \<not> is_space c"
  by (auto simp: is_digit_def is_space_def char_code_def)

lemma takeWhile_show_nat:
  assumes "r = [] \<or> \<not> is_digit (hd r)"
  shows "takeWhile is_digit (show_nat n @ r) = show_nat n"
proof -
  have "takeWhile is_digit (show_nat n @ r) = show_nat n @ takeWhile is_digit r"
    by (rule takeWhile_append2) (rule show_nat_digits)
  also have "takeWhile is_digit r = []"
    using assms by (cases r) auto
  finally show ?thesis by simp
qed

text \<open>Printing a 64-bit integer and reading it back, whatever non-digit text follows.\<close>

lemma stoll_to_string_append:
  assumes "i64_ok n" and r: "r = [] \<or> \<not> is_digit (hd r)"
  shows "stoll (to_string n @ r) = Inr n"
proof (cases "n < 0")
  case True
  then have "dropWhile is_space (to_string n @ r) = CHR ''-'' # show_nat (nat (- n)) @ r"
    by (simp add: to_string_def is_space_def char_code_def)
  with True show ?thesis
    using assms by (simp add: stoll_def takeWhile_show_nat)
next
  case False
  obtain c cs where c: "show_nat (nat n) = c # cs"
    by (cases "show_nat (nat n)") auto
  then have d: "is_digit c"
    using show_nat_digits [of c "nat n"] by simp
  have "dropWhile is_space (to_string n @ r) = c # cs @ r"
    using False c digit_not_special [OF d] by (simp add: to_string_def)
  moreover have "takeWhile is_digit (c # cs @ r) = show_nat (nat n)"
    using takeWhile_show_nat [OF r, of "nat n"] c by simp
  ultimately show ?thesis
    using assms False digit_not_special [OF d] by (simp add: stoll_def)
qed

lemma stoll_to_string: "i64_ok n \<Longrightarrow> stoll (to_string n) = Inr n"
  using stoll_to_string_append [of n "[]"] by simp

lemma stoll_range: "stoll s = Inr n \<Longrightarrow> i64_ok n"
  by (auto simp: stoll_def Let_def split: if_splits prod.splits)

section \<open>Searching\<close>

definition occurs_at :: "string \<Rightarrow> string \<Rightarrow> nat \<Rightarrow> bool" where
  "occurs_at pat s i \<longleftrightarrow> take (length pat) (drop i s) = pat"

definition str_find :: "string \<Rightarrow> string \<Rightarrow> nat \<Rightarrow> nat option" where
  "str_find s pat pos = find (occurs_at pat s) [pos..<Suc (length s) - length pat]"

definition str_rfind :: "string \<Rightarrow> string \<Rightarrow> nat option" where
  "str_rfind s pat = find (occurs_at pat s) (rev [0..<Suc (length s) - length pat])"

definition substr :: "string \<Rightarrow> nat \<Rightarrow> nat \<Rightarrow> string" where
  "substr s pos n = take n (drop pos s)"

lemma str_find_Some:
  assumes "str_find s pat pos = Some i"
  shows "pos \<le> i" "i + length pat \<le> length s" "occurs_at pat s i"
proof -
  from assms have "i \<in> set [pos..<Suc (length s) - length pat]" and "occurs_at pat s i"
    unfolding str_find_def find_Some_iff by auto
  then show "pos \<le> i" "i + length pat \<le> length s" "occurs_at pat s i"
    by auto
qed

lemma str_find_None:
  "str_find s pat pos = None \<longleftrightarrow>
     (\<forall>i. pos \<le> i \<and> i + length pat \<le> length s \<longrightarrow> \<not> occurs_at pat s i)"
  by (auto simp: str_find_def find_None_iff less_Suc_eq_le)

lemma str_find_first:
  assumes "str_find s pat pos = Some i" "pos \<le> j" "j < i"
  shows "\<not> occurs_at pat s j"
proof -
  from assms(1) obtain k where k: "k < length [pos..<Suc (length s) - length pat]"
    "[pos..<Suc (length s) - length pat] ! k = i"
    "\<forall>l<k. \<not> occurs_at pat s ([pos..<Suc (length s) - length pat] ! l)"
    by (auto simp: str_find_def find_Some_iff)
  then have "i = pos + k" by simp
  with assms(2,3) have "j - pos < k" by simp
  with k(3) have "\<not> occurs_at pat s ([pos..<Suc (length s) - length pat] ! (j - pos))"
    by blast
  with k(1) \<open>j - pos < k\<close> assms(2) show ?thesis by simp
qed

section \<open>Ordered maps\<close>

fun map_emplace :: "string \<Rightarrow> 'v \<Rightarrow> (string \<times> 'v) list \<Rightarrow> (string \<times> 'v) list" where
  "map_emplace k v [] = [(k, v)]"
| "map_emplace k v ((k', v') # m) =
     (if k < k' then (k, v) # (k', v') # m
      else if k = k' then (k', v') # m
      else (k', v') # map_emplace k v m)"

definition map_ordered :: "(string \<times> 'v) list \<Rightarrow> bool" where
  "map_ordered m \<longleftrightarrow> sorted_wrt (<) (map fst m)"

lemma map_emplace_last:
  assumes "map_ordered (m @ [(k, v)])"
  shows "map_emplace k v m = m @ [(k, v)]"
  using assms by (induction m) (auto simp: map_ordered_def sorted_wrt_append)

lemma map_ordered_prefix: "map_ordered (m @ m') \<Longrightarrow> map_ordered m"
  by (simp add: map_ordered_def sorted_wrt_append)

lemma set_map_emplace: "fst ` set (map_emplace k v m) = insert k (fst ` set m)"
proof (induction m)
  case Nil
  show ?case by simp
next
  case (Cons p m)
  show ?case
    by (cases p) (simp add: Cons.IH insert_commute)
qed

lemma map_emplace_ordered: "map_ordered m \<Longrightarrow> map_ordered (map_emplace k v m)"
proof (induction m)
  case Nil
  show ?case by (simp add: map_ordered_def)
next
  case (Cons p m)
  obtain k' v' where p: "p = (k', v')" by fastforce
  from Cons.prems have "map_ordered m" and lt: "\<And>x. x \<in> fst ` set m \<Longrightarrow> k' < x"
    by (auto simp: map_ordered_def p)
  with Cons.IH have "map_ordered (map_emplace k v m)" by simp
  moreover have "k' < x" if "x \<in> fst ` set (map_emplace k v m)" "\<not> k < k'" "k \<noteq> k'" for x
    using that lt by (auto simp: set_map_emplace)
  ultimately show ?case
    using Cons.prems by (auto simp: p map_ordered_def dest: less_trans)
qed

end
