(* ===== verification/Topology.thy ===== *)
theory Topology
  imports Cxx_String
begin

text \<open>
  \<^verbatim>\<open>src/distributed/topology.cc\<close> and its header: the parallel layout of a job. A
  \<open>cluster_spec\<close> is validated on construction; \<open>global_rank\<close> maps the five coordinates
  (data, pipeline, context, tensor, expert) to a rank, \<open>rank_info\<close> maps a rank back to its
  coordinates and lists the process groups it belongs to, \<open>pipeline_layer_range\<close> splits the
  layers among the stages, \<open>nccl_env\<close> renders the network policy. The lemmas give the closed
  form of \<open>global_rank\<close> on a validated spec (no step overflows), the bijection between
  coordinates and ranks, and the groups as the fibres of the coordinates.
\<close>

section \<open>Data\<close>

datatype dtype_policy = Float32 | Float16 | BFloat16

record parallel_dims =
  p_data :: int
  p_tensor :: int
  p_pipeline :: int
  p_context :: int
  p_expert :: int
  p_sequence :: int
  p_micro_batches :: int

record memory_policy =
  param_dtype :: dtype_policy
  reduce_dtype :: dtype_policy
  activation_checkpointing :: bool
  overlap_grad_reduce :: bool
  overlap_param_gather :: bool
  shard_optimizer :: bool
  shard_gradients :: bool
  cpu_optimizer_offload :: bool
  cpu_param_offload :: bool
  max_activation_bytes_per_rank :: int

record network_policy =
  socket_ifnames :: "string list"
  ib_hcas :: "string list"
  nccl_topo_file :: string
  nccl_ib_gid_index :: int
  enable_nvls :: bool
  enable_p2p :: bool
  enable_ib :: bool

record cluster_spec =
  spec_world_size :: int
  spec_rank :: int
  spec_local_world_size :: int
  spec_local_rank :: int
  spec_node_rank :: int
  spec_gpus_per_node :: int
  spec_parallel :: parallel_dims
  spec_memory :: memory_policy
  spec_network :: network_policy

record parallel_rank_info =
  info_rank :: int
  info_data_rank :: int
  info_tensor_rank :: int
  info_pipeline_rank :: int
  info_context_rank :: int
  info_expert_rank :: int
  info_sequence_rank :: int
  data_group :: "int list"
  tensor_group :: "int list"
  pipeline_group :: "int list"
  context_group :: "int list"
  expert_group :: "int list"
  sequence_group :: "int list"
  model_group :: "int list"

record layer_range =
  layer_begin :: int
  layer_end :: int

definition dtype_policy_name :: "dtype_policy \<Rightarrow> string" where
  "dtype_policy_name d =
     (case d of Float32 \<Rightarrow> ''float32'' | Float16 \<Rightarrow> ''float16'' | BFloat16 \<Rightarrow> ''bfloat16'')"

section \<open>Operations\<close>

definition env_i64 :: "(string \<Rightarrow> string option) \<Rightarrow> string \<Rightarrow> int \<Rightarrow> int result" where
  "env_i64 getenv name fallback =
     (case getenv name of
        None \<Rightarrow> Inr fallback
      | Some value \<Rightarrow> if value = [] then Inr fallback else stoll value)"

fun join :: "string list \<Rightarrow> string \<Rightarrow> string" where
  "join [] sep = []"
| "join [v] sep = v"
| "join (v # w # vs) sep = v @ sep @ join (w # vs) sep"

definition require_positive :: "int \<Rightarrow> string \<Rightarrow> unit result" where
  "require_positive value name = throw_if (value \<le> 0) (InvalidArgument (name @ '' must be positive''))"

definition expected_world :: "parallel_dims \<Rightarrow> int result" where
  "expected_world p =
     and_then (mul64 (p_data p) (p_pipeline p)) (\<lambda>a.
     and_then (mul64 a (p_context p)) (\<lambda>b.
     and_then (mul64 b (p_tensor p)) (\<lambda>c.
     mul64 c (p_expert p))))"

definition validate_sizes :: "cluster_spec \<Rightarrow> unit result" where
  "validate_sizes s =
     and_then (require_positive (spec_world_size s) ''world_size'') (\<lambda>_.
     and_then (require_positive (spec_local_world_size s) ''local_world_size'') (\<lambda>_.
     and_then (require_positive (spec_gpus_per_node s) ''gpus_per_node'') (\<lambda>_.
     and_then (require_positive (p_data (spec_parallel s)) ''data_parallel'') (\<lambda>_.
     and_then (require_positive (p_tensor (spec_parallel s)) ''tensor_parallel'') (\<lambda>_.
     and_then (require_positive (p_pipeline (spec_parallel s)) ''pipeline_parallel'') (\<lambda>_.
     and_then (require_positive (p_context (spec_parallel s)) ''context_parallel'') (\<lambda>_.
     and_then (require_positive (p_expert (spec_parallel s)) ''expert_parallel'') (\<lambda>_.
     and_then (require_positive (p_sequence (spec_parallel s)) ''sequence_parallel'') (\<lambda>_.
     require_positive (p_micro_batches (spec_parallel s)) ''micro_batches'')))))))))"

definition validate :: "cluster_spec \<Rightarrow> unit result" where
  "validate s =
     and_then (validate_sizes s) (\<lambda>_.
     and_then (throw_if (spec_rank s < 0 \<or> spec_rank s \<ge> spec_world_size s)
       (InvalidArgument ''rank must be in [0, world_size)'')) (\<lambda>_.
     and_then (throw_if (spec_local_rank s < 0 \<or> spec_local_rank s \<ge> spec_local_world_size s)
       (InvalidArgument ''local_rank must be in [0, local_world_size)'')) (\<lambda>_.
     and_then (expected_world (spec_parallel s)) (\<lambda>expected.
     and_then (throw_if (spec_world_size s \<noteq> expected)
       (InvalidArgument ''world_size must equal data_parallel * pipeline_parallel * context_parallel * tensor_parallel * expert_parallel'')) (\<lambda>_.
     and_then (throw_if (p_pipeline (spec_parallel s) > 1 \<and>
         p_micro_batches (spec_parallel s) < p_pipeline (spec_parallel s))
       (InvalidArgument ''pipeline parallelism needs at least as many micro_batches as pipeline stages'')) (\<lambda>_.
     and_then (throw_if (p_tensor (spec_parallel s) > spec_gpus_per_node s)
       (InvalidArgument ''tensor_parallel should fit within one node for high-bandwidth TP collectives'')) (\<lambda>_.
     and_then (throw_if (p_sequence (spec_parallel s) > p_tensor (spec_parallel s) \<or>
         p_tensor (spec_parallel s) smod p_sequence (spec_parallel s) \<noteq> 0)
       (InvalidArgument ''sequence_parallel must divide tensor_parallel and cannot exceed it'')) (\<lambda>_.
     throw_if (spec_local_world_size s > spec_gpus_per_node s)
       (InvalidArgument ''local_world_size cannot exceed gpus_per_node'')))))))))"

text \<open>The constructor: a \<^verbatim>\<open>Topology\<close> is a spec that passed \<open>validate\<close>.\<close>

definition make_topology :: "cluster_spec \<Rightarrow> cluster_spec result" where
  "make_topology s = and_then (validate s) (\<lambda>_. Inr s)"

definition global_rank :: "cluster_spec \<Rightarrow> int \<Rightarrow> int \<Rightarrow> int \<Rightarrow> int \<Rightarrow> int \<Rightarrow> int result" where
  "global_rank s data_rank pipeline_rank context_rank tensor_rank expert_rank =
     (let p = spec_parallel s in
      if data_rank < 0 \<or> data_rank \<ge> p_data p \<or> pipeline_rank < 0 \<or> pipeline_rank \<ge> p_pipeline p \<or>
         context_rank < 0 \<or> context_rank \<ge> p_context p \<or> tensor_rank < 0 \<or> tensor_rank \<ge> p_tensor p \<or>
         expert_rank < 0 \<or> expert_rank \<ge> p_expert p
      then Inl (OutOfRange ''parallel rank coordinate out of range'')
      else and_then (mul64 data_rank (p_pipeline p)) (\<lambda>a.
           and_then (add64 a pipeline_rank) (\<lambda>b.
           and_then (mul64 b (p_context p)) (\<lambda>c.
           and_then (add64 c context_rank) (\<lambda>d.
           and_then (mul64 d (p_tensor p)) (\<lambda>e.
           and_then (add64 e tensor_rank) (\<lambda>f.
           and_then (mul64 f (p_expert p)) (\<lambda>g.
           add64 g expert_rank))))))))"

definition global_rank4 :: "cluster_spec \<Rightarrow> int \<Rightarrow> int \<Rightarrow> int \<Rightarrow> int \<Rightarrow> int result" where
  "global_rank4 s data_rank pipeline_rank context_rank tensor_rank =
     global_rank s data_rank pipeline_rank context_rank tensor_rank 0"

definition global_rank3 :: "cluster_spec \<Rightarrow> int \<Rightarrow> int \<Rightarrow> int \<Rightarrow> int result" where
  "global_rank3 s data_rank pipeline_rank tensor_rank =
     global_rank4 s data_rank pipeline_rank 0 tensor_rank"

definition rank_coordinates :: "parallel_dims \<Rightarrow> int \<Rightarrow> parallel_rank_info" where
  "rank_coordinates p rank =
     (let expert = rank smod p_expert p;
          rem1 = rank sdiv p_expert p;
          tensor = rem1 smod p_tensor p;
          seq = tensor smod p_sequence p;
          rem2 = rem1 sdiv p_tensor p;
          context = rem2 smod p_context p;
          rem3 = rem2 sdiv p_context p
      in \<lparr> info_rank = rank,
           info_data_rank = rem3 sdiv p_pipeline p,
           info_tensor_rank = tensor,
           info_pipeline_rank = rem3 smod p_pipeline p,
           info_context_rank = context,
           info_expert_rank = expert,
           info_sequence_rank = seq,
           data_group = [], tensor_group = [], pipeline_group = [], context_group = [],
           expert_group = [], sequence_group = [], model_group = [] \<rparr>)"

definition rank_info :: "cluster_spec \<Rightarrow> int \<Rightarrow> parallel_rank_info result" where
  "rank_info s rank =
     (if rank < 0 \<or> rank \<ge> spec_world_size s then Inl (OutOfRange ''rank out of range'')
      else
        let p = spec_parallel s; i = rank_coordinates p rank;
            d = info_data_rank i; pp = info_pipeline_rank i; c = info_context_rank i;
            t = info_tensor_rank i; e = info_expert_rank i;
            block = (t sdiv p_sequence p) * p_sequence p in
        and_then (map_result (\<lambda>d'. global_rank s d' pp c t e) [0..p_data p - 1]) (\<lambda>dg.
        and_then (map_result (\<lambda>t'. global_rank s d pp c t' e) [0..p_tensor p - 1]) (\<lambda>tg.
        and_then (map_result (\<lambda>pp'. global_rank s d pp' c t e) [0..p_pipeline p - 1]) (\<lambda>pg.
        and_then (map_result (\<lambda>c'. global_rank s d pp c' t e) [0..p_context p - 1]) (\<lambda>cg.
        and_then (map_result (\<lambda>e'. global_rank s d pp c t e') [0..p_expert p - 1]) (\<lambda>eg.
        and_then (map_result (\<lambda>t'. global_rank s d pp c t' e) [block..block + p_sequence p - 1]) (\<lambda>sg.
        and_then (map_result (\<lambda>(pp', c', t', e'). global_rank s d pp' c' t' e')
           (List.product [0..p_pipeline p - 1] (List.product [0..p_context p - 1]
              (List.product [0..p_tensor p - 1] [0..p_expert p - 1])))) (\<lambda>mg.
        Inr (i\<lparr> data_group := dg, tensor_group := tg, pipeline_group := pg, context_group := cg,
                expert_group := eg, sequence_group := sg, model_group := mg \<rparr>)))))))))"

definition local_rank_info :: "cluster_spec \<Rightarrow> parallel_rank_info result" where
  "local_rank_info s = rank_info s (spec_rank s)"

definition pipeline_layer_range :: "cluster_spec \<Rightarrow> int \<Rightarrow> int \<Rightarrow> layer_range result" where
  "pipeline_layer_range s num_layers pipeline_rank =
     (if num_layers < 0 then Inl (InvalidArgument ''num_layers must be non-negative'')
      else
        let pp = p_pipeline (spec_parallel s) in
        if pipeline_rank < 0 \<or> pipeline_rank \<ge> pp then Inl (OutOfRange ''pipeline rank out of range'')
        else
          let base = num_layers sdiv pp;
              rem = num_layers smod pp;
              first = pipeline_rank * base + min pipeline_rank rem;
              count = base + (if pipeline_rank < rem then 1 else 0)
          in Inr \<lparr> layer_begin = first, layer_end = first + count \<rparr>)"

definition local_pipeline_layer_range :: "cluster_spec \<Rightarrow> int \<Rightarrow> layer_range result" where
  "local_pipeline_layer_range s num_layers =
     and_then (local_rank_info s) (\<lambda>i. pipeline_layer_range s num_layers (info_pipeline_rank i))"

definition nccl_env :: "cluster_spec \<Rightarrow> (string \<rightharpoonup> string)" where
  "nccl_env s =
     (let n = spec_network s;
          e0 = [''NCCL_P2P_DISABLE'' \<mapsto> (if enable_p2p n then ''0'' else ''1''),
                ''NCCL_IB_DISABLE'' \<mapsto> (if enable_ib n then ''0'' else ''1''),
                ''NCCL_NVLS_ENABLE'' \<mapsto> (if enable_nvls n then ''1'' else ''0''),
                ''NCCL_ASYNC_ERROR_HANDLING'' \<mapsto> ''1'',
                ''TORCH_NCCL_BLOCKING_WAIT'' \<mapsto> ''0''];
          e1 = (if socket_ifnames n \<noteq> []
                then e0(''NCCL_SOCKET_IFNAME'' \<mapsto> join (socket_ifnames n) '','') else e0);
          e2 = (if ib_hcas n \<noteq> [] then e1(''NCCL_IB_HCA'' \<mapsto> join (ib_hcas n) '','') else e1);
          e3 = (if nccl_topo_file n \<noteq> [] then e2(''NCCL_TOPO_FILE'' \<mapsto> nccl_topo_file n) else e2)
      in if nccl_ib_gid_index n \<ge> 0
         then e3(''NCCL_IB_GID_INDEX'' \<mapsto> to_string (nccl_ib_gid_index n)) else e3)"

definition cluster_spec_from_env ::
  "(string \<Rightarrow> string option) \<Rightarrow> parallel_dims \<Rightarrow> memory_policy \<Rightarrow> network_policy \<Rightarrow> cluster_spec result" where
  "cluster_spec_from_env getenv parallel memory network =
     and_then (env_i64 getenv ''WORLD_SIZE'' 1) (\<lambda>world.
     and_then (env_i64 getenv ''RANK'' 0) (\<lambda>rank.
     and_then (env_i64 getenv ''LOCAL_WORLD_SIZE'' world) (\<lambda>local_world.
     and_then (env_i64 getenv ''LOCAL_RANK'' rank) (\<lambda>local_rank.
     and_then (env_i64 getenv ''NODE_RANK''
                 (if local_world > 0 then rank sdiv local_world else 0)) (\<lambda>node_rank.
     and_then (env_i64 getenv ''CVERL_GPUS_PER_NODE'' local_world) (\<lambda>gpus.
     Inr \<lparr> spec_world_size = world, spec_rank = rank, spec_local_world_size = local_world,
           spec_local_rank = local_rank, spec_node_rank = node_rank, spec_gpus_per_node = gpus,
           spec_parallel = parallel, spec_memory = memory, spec_network = network \<rparr>))))))"

section \<open>Validated specifications\<close>

definition valid_spec :: "cluster_spec \<Rightarrow> bool" where
  "valid_spec s \<longleftrightarrow> validate s = Inr ()"

definition coords_ok :: "parallel_dims \<Rightarrow> int \<Rightarrow> int \<Rightarrow> int \<Rightarrow> int \<Rightarrow> int \<Rightarrow> bool" where
  "coords_ok p d pp c t e \<longleftrightarrow>
     0 \<le> d \<and> d < p_data p \<and> 0 \<le> pp \<and> pp < p_pipeline p \<and> 0 \<le> c \<and> c < p_context p \<and>
     0 \<le> t \<and> t < p_tensor p \<and> 0 \<le> e \<and> e < p_expert p"

text \<open>The rank of five coordinates as a mixed-radix number.\<close>

definition rank_of :: "parallel_dims \<Rightarrow> int \<Rightarrow> int \<Rightarrow> int \<Rightarrow> int \<Rightarrow> int \<Rightarrow> int" where
  "rank_of p d pp c t e =
     (((d * p_pipeline p + pp) * p_context p + c) * p_tensor p + t) * p_expert p + e"

lemma require_positive_Inr [simp]: "require_positive v n = Inr u \<longleftrightarrow> 0 < v"
  by (auto simp: require_positive_def)

lemma expected_world_Inr:
  "expected_world p = Inr w \<longleftrightarrow>
     i64_ok (p_data p * p_pipeline p) \<and> i64_ok (p_data p * p_pipeline p * p_context p) \<and>
     i64_ok (p_data p * p_pipeline p * p_context p * p_tensor p) \<and>
     w = p_data p * p_pipeline p * p_context p * p_tensor p * p_expert p \<and> i64_ok w"
  by (auto simp: expected_world_def mul64_def result_simps)

lemma valid_spec_iff:
  "valid_spec s \<longleftrightarrow>
     0 < spec_world_size s \<and> 0 < spec_local_world_size s \<and> 0 < spec_gpus_per_node s \<and>
     0 < p_data (spec_parallel s) \<and> 0 < p_tensor (spec_parallel s) \<and>
     0 < p_pipeline (spec_parallel s) \<and> 0 < p_context (spec_parallel s) \<and>
     0 < p_expert (spec_parallel s) \<and> 0 < p_sequence (spec_parallel s) \<and>
     0 < p_micro_batches (spec_parallel s) \<and>
     0 \<le> spec_rank s \<and> spec_rank s < spec_world_size s \<and>
     0 \<le> spec_local_rank s \<and> spec_local_rank s < spec_local_world_size s \<and>
     expected_world (spec_parallel s) = Inr (spec_world_size s) \<and>
     (p_pipeline (spec_parallel s) > 1 \<longrightarrow>
        p_pipeline (spec_parallel s) \<le> p_micro_batches (spec_parallel s)) \<and>
     p_tensor (spec_parallel s) \<le> spec_gpus_per_node s \<and>
     p_sequence (spec_parallel s) \<le> p_tensor (spec_parallel s) \<and>
     p_tensor (spec_parallel s) smod p_sequence (spec_parallel s) = 0 \<and>
     spec_local_world_size s \<le> spec_gpus_per_node s"
  by (auto simp: valid_spec_def validate_def validate_sizes_def result_simps not_less not_le)

lemma valid_spec_dims:
  assumes "valid_spec s"
  shows "0 < p_data (spec_parallel s)" "0 < p_tensor (spec_parallel s)"
    "0 < p_pipeline (spec_parallel s)" "0 < p_context (spec_parallel s)"
    "0 < p_expert (spec_parallel s)" "0 < p_sequence (spec_parallel s)"
    "0 < p_micro_batches (spec_parallel s)"
  using assms by (auto simp: valid_spec_iff)

lemma valid_spec_world:
  "valid_spec s \<Longrightarrow> spec_world_size s =
     p_data (spec_parallel s) * p_pipeline (spec_parallel s) * p_context (spec_parallel s) *
     p_tensor (spec_parallel s) * p_expert (spec_parallel s)"
  by (simp add: valid_spec_iff expected_world_Inr)

lemma valid_spec_seq:
  assumes "valid_spec s"
  shows "p_tensor (spec_parallel s) mod p_sequence (spec_parallel s) = 0"
    "p_sequence (spec_parallel s) \<le> p_tensor (spec_parallel s)"
  using assms by (auto simp: valid_spec_iff smod_nonneg)

section \<open>Ranks and coordinates\<close>

lemma radix_bounds:
  assumes "0 \<le> a" "a < A" "0 \<le> b" "b < (B :: int)"
  shows "0 \<le> a * B + b \<and> a * B + b < A * B"
  using assms by (auto intro!: radix_less radix_nonneg)

lemma rank_of_prefix_bounds:
  assumes "coords_ok p d pp c t e"
  shows "0 \<le> d * p_pipeline p + pp \<and> d * p_pipeline p + pp < p_data p * p_pipeline p"
    and "0 \<le> (d * p_pipeline p + pp) * p_context p + c \<and>
         (d * p_pipeline p + pp) * p_context p + c < p_data p * p_pipeline p * p_context p"
    and "0 \<le> ((d * p_pipeline p + pp) * p_context p + c) * p_tensor p + t \<and>
         ((d * p_pipeline p + pp) * p_context p + c) * p_tensor p + t
           < p_data p * p_pipeline p * p_context p * p_tensor p"
    and "0 \<le> rank_of p d pp c t e \<and>
         rank_of p d pp c t e < p_data p * p_pipeline p * p_context p * p_tensor p * p_expert p"
proof -
  show 1: "0 \<le> d * p_pipeline p + pp \<and> d * p_pipeline p + pp < p_data p * p_pipeline p"
    using assms by (intro radix_bounds) (auto simp: coords_ok_def)
  show 2: "0 \<le> (d * p_pipeline p + pp) * p_context p + c \<and>
         (d * p_pipeline p + pp) * p_context p + c < p_data p * p_pipeline p * p_context p"
    using assms 1 by (intro radix_bounds) (auto simp: coords_ok_def)
  show 3: "0 \<le> ((d * p_pipeline p + pp) * p_context p + c) * p_tensor p + t \<and>
         ((d * p_pipeline p + pp) * p_context p + c) * p_tensor p + t
           < p_data p * p_pipeline p * p_context p * p_tensor p"
    using assms 2 by (intro radix_bounds) (auto simp: coords_ok_def)
  show "0 \<le> rank_of p d pp c t e \<and>
         rank_of p d pp c t e < p_data p * p_pipeline p * p_context p * p_tensor p * p_expert p"
    unfolding rank_of_def
    using assms 3 by (intro radix_bounds) (auto simp: coords_ok_def)
qed

lemma i64_ok_radix:
  assumes "0 \<le> (a::int)" "0 \<le> B" "0 \<le> b" "a * B + b < N" "i64_ok N"
  shows "i64_ok (a * B)" "i64_ok (a * B + b)"
proof -
  have "0 \<le> a * B" using assms by simp
  with assms show "i64_ok (a * B)" "i64_ok (a * B + b)"
    unfolding i64_ok_def by linarith+
qed

text \<open>On a validated spec every intermediate value of \<open>global_rank\<close> is a 64-bit integer.\<close>

lemma global_rank_Inr:
  assumes v: "valid_spec s" and c: "coords_ok (spec_parallel s) d pp c t e"
  shows "global_rank s d pp c t e = Inr (rank_of (spec_parallel s) d pp c t e)"
proof -
  let ?p = "spec_parallel s"
  note b = rank_of_prefix_bounds [OF c]
  have ok: "i64_ok (p_data ?p * p_pipeline ?p)" "i64_ok (p_data ?p * p_pipeline ?p * p_context ?p)"
    "i64_ok (p_data ?p * p_pipeline ?p * p_context ?p * p_tensor ?p)"
    "i64_ok (p_data ?p * p_pipeline ?p * p_context ?p * p_tensor ?p * p_expert ?p)"
    using v by (auto simp: valid_spec_iff expected_world_Inr)
  have pos: "0 \<le> d" "0 \<le> pp" "0 \<le> c" "0 \<le> t" "0 \<le> e" "0 \<le> p_pipeline ?p" "0 \<le> p_context ?p"
    "0 \<le> p_tensor ?p" "0 \<le> p_expert ?p"
    using c by (auto simp: coords_ok_def)
  note s1 = i64_ok_radix [OF pos(1,6,2) conjunct2 [OF b(1)] ok(1)]
  note s2 = i64_ok_radix [OF conjunct1 [OF b(1)] pos(7,3) conjunct2 [OF b(2)] ok(2)]
  note s3 = i64_ok_radix [OF conjunct1 [OF b(2)] pos(8,4) conjunct2 [OF b(3)] ok(3)]
  note s4 = i64_ok_radix [OF conjunct1 [OF b(3)] pos(9,5) conjunct2 [OF b(4)[unfolded rank_of_def]] ok(4)]
  have range: "\<not> (d < 0 \<or> d \<ge> p_data ?p \<or> pp < 0 \<or> pp \<ge> p_pipeline ?p \<or> c < 0 \<or> c \<ge> p_context ?p \<or>
      t < 0 \<or> t \<ge> p_tensor ?p \<or> e < 0 \<or> e \<ge> p_expert ?p)"
    using c by (auto simp: coords_ok_def)
  show ?thesis
    unfolding global_rank_def Let_def if_not_P [OF range]
    by (simp add: mul64_def add64_def s1 s2 s3 s4 rank_of_def)
qed

lemma global_rank_out_of_range:
  "\<not> coords_ok (spec_parallel s) d pp c t e \<Longrightarrow>
   global_rank s d pp c t e = Inl (OutOfRange ''parallel rank coordinate out of range'')"
  by (auto simp: global_rank_def coords_ok_def Let_def)

lemma coordinates_rank_of:
  assumes "coords_ok p d pp c t e"
  defines "i \<equiv> rank_coordinates p (rank_of p d pp c t e)"
  shows "info_data_rank i = d" "info_pipeline_rank i = pp" "info_context_rank i = c"
    "info_tensor_rank i = t" "info_expert_rank i = e" "info_rank i = rank_of p d pp c t e"
proof -
  note b = rank_of_prefix_bounds [OF assms(1)]
  have pos: "0 \<le> d" "0 \<le> pp" "pp < p_pipeline p" "0 \<le> c" "c < p_context p" "0 \<le> t" "t < p_tensor p"
    "0 \<le> e" "e < p_expert p"
    using assms(1) by (auto simp: coords_ok_def)
  have d1: "rank_of p d pp c t e sdiv p_expert p = ((d * p_pipeline p + pp) * p_context p + c) * p_tensor p + t"
    and m1: "rank_of p d pp c t e smod p_expert p = e"
    using b(4) pos by (simp_all add: sdiv_nonneg smod_nonneg) (simp_all add: rank_of_def)
  have d2: "(((d * p_pipeline p + pp) * p_context p + c) * p_tensor p + t) sdiv p_tensor p =
      (d * p_pipeline p + pp) * p_context p + c"
    and m2: "(((d * p_pipeline p + pp) * p_context p + c) * p_tensor p + t) smod p_tensor p = t"
    using b(3) pos by (simp_all add: sdiv_nonneg smod_nonneg)
  have d3: "((d * p_pipeline p + pp) * p_context p + c) sdiv p_context p = d * p_pipeline p + pp"
    and m3: "((d * p_pipeline p + pp) * p_context p + c) smod p_context p = c"
    using b(2) pos by (simp_all add: sdiv_nonneg smod_nonneg)
  have d4: "(d * p_pipeline p + pp) sdiv p_pipeline p = d"
    and m4: "(d * p_pipeline p + pp) smod p_pipeline p = pp"
    using b(1) pos by (simp_all add: sdiv_nonneg smod_nonneg)
  show "info_data_rank i = d" "info_pipeline_rank i = pp" "info_context_rank i = c"
    "info_tensor_rank i = t" "info_expert_rank i = e" "info_rank i = rank_of p d pp c t e"
    by (simp_all add: i_def rank_coordinates_def Let_def d1 m1 d2 m2 d3 m3 d4 m4)
qed

lemma coordinates_ok:
  assumes v: "valid_spec s" and r: "0 \<le> r" "r < spec_world_size s"
  defines "i \<equiv> rank_coordinates (spec_parallel s) r"
  shows "coords_ok (spec_parallel s) (info_data_rank i) (info_pipeline_rank i) (info_context_rank i)
           (info_tensor_rank i) (info_expert_rank i)"
    and "rank_of (spec_parallel s) (info_data_rank i) (info_pipeline_rank i) (info_context_rank i)
           (info_tensor_rank i) (info_expert_rank i) = r"
    and "info_rank i = r" "0 \<le> info_sequence_rank i"
    and "info_sequence_rank i < p_sequence (spec_parallel s)"
proof -
  let ?p = "spec_parallel s"
  note dims = valid_spec_dims [OF v]
  let ?r1 = "r div p_expert ?p" and ?r2 = "r div p_expert ?p div p_tensor ?p"
    and ?r3 = "r div p_expert ?p div p_tensor ?p div p_context ?p"
  have n: "0 \<le> ?r1" "0 \<le> ?r2" "0 \<le> ?r3" "0 \<le> ?r1 mod p_tensor ?p"
    using r(1) dims by (simp_all add: pos_imp_zdiv_nonneg_iff)
  have q: "r smod p_expert ?p = r mod p_expert ?p" "r sdiv p_expert ?p = ?r1"
    "?r1 smod p_tensor ?p = ?r1 mod p_tensor ?p" "?r1 sdiv p_tensor ?p = ?r2"
    "?r2 smod p_context ?p = ?r2 mod p_context ?p" "?r2 sdiv p_context ?p = ?r3"
    "?r3 smod p_pipeline ?p = ?r3 mod p_pipeline ?p"
    "?r3 sdiv p_pipeline ?p = ?r3 div p_pipeline ?p"
    "(?r1 mod p_tensor ?p) smod p_sequence ?p = (?r1 mod p_tensor ?p) mod p_sequence ?p"
    using r(1) n dims by (simp_all only: sdiv_nonneg smod_nonneg less_imp_le)
  have i: "info_expert_rank i = r mod p_expert ?p" "info_tensor_rank i = ?r1 mod p_tensor ?p"
    "info_context_rank i = ?r2 mod p_context ?p" "info_pipeline_rank i = ?r3 mod p_pipeline ?p"
    "info_data_rank i = ?r3 div p_pipeline ?p" "info_rank i = r"
    "info_sequence_rank i = (?r1 mod p_tensor ?p) mod p_sequence ?p"
    unfolding i_def rank_coordinates_def Let_def by (simp_all only: parallel_rank_info.simps q)
  have "r < p_data ?p * p_pipeline ?p * p_context ?p * p_tensor ?p * p_expert ?p"
    using r(2) valid_spec_world [OF v] by simp
  then have "?r1 < p_data ?p * p_pipeline ?p * p_context ?p * p_tensor ?p"
    using dims by (simp add: div_less_if)
  then have "?r2 < p_data ?p * p_pipeline ?p * p_context ?p"
    using dims by (simp add: div_less_if)
  then have "?r3 < p_data ?p * p_pipeline ?p"
    using dims by (simp add: div_less_if)
  then have "?r3 div p_pipeline ?p < p_data ?p"
    using dims by (simp add: div_less_if)
  then show "coords_ok ?p (info_data_rank i) (info_pipeline_rank i) (info_context_rank i)
           (info_tensor_rank i) (info_expert_rank i)"
    using n dims by (simp add: coords_ok_def i pos_imp_zdiv_nonneg_iff)
  show "rank_of ?p (info_data_rank i) (info_pipeline_rank i) (info_context_rank i)
           (info_tensor_rank i) (info_expert_rank i) = r"
    by (simp add: rank_of_def i)
  show "info_rank i = r" "0 \<le> info_sequence_rank i" "info_sequence_rank i < p_sequence ?p"
    using dims by (simp_all add: i)
qed

text \<open>The closed form of \<open>rank_info\<close>: the coordinates, and each group as a list of ranks.\<close>

definition rank_info_of :: "parallel_dims \<Rightarrow> int \<Rightarrow> parallel_rank_info" where
  "rank_info_of p r =
     (let i = rank_coordinates p r; d = info_data_rank i; pp = info_pipeline_rank i;
          c = info_context_rank i; t = info_tensor_rank i; e = info_expert_rank i;
          block = (t div p_sequence p) * p_sequence p
      in i\<lparr> data_group := map (\<lambda>d'. rank_of p d' pp c t e) [0..p_data p - 1],
            tensor_group := map (\<lambda>t'. rank_of p d pp c t' e) [0..p_tensor p - 1],
            pipeline_group := map (\<lambda>pp'. rank_of p d pp' c t e) [0..p_pipeline p - 1],
            context_group := map (\<lambda>c'. rank_of p d pp c' t e) [0..p_context p - 1],
            expert_group := map (\<lambda>e'. rank_of p d pp c t e') [0..p_expert p - 1],
            sequence_group := map (\<lambda>t'. rank_of p d pp c t' e) [block..block + p_sequence p - 1],
            model_group := map (\<lambda>(pp', c', t', e'). rank_of p d pp' c' t' e')
              (List.product [0..p_pipeline p - 1] (List.product [0..p_context p - 1]
              (List.product [0..p_tensor p - 1] [0..p_expert p - 1]))) \<rparr>)"

lemma sequence_block_bounds:
  assumes v: "valid_spec s" and t: "0 \<le> t" "t < p_tensor (spec_parallel s)"
    and x: "(t div p_sequence (spec_parallel s)) * p_sequence (spec_parallel s) \<le> x"
      "x < (t div p_sequence (spec_parallel s)) * p_sequence (spec_parallel s) + p_sequence (spec_parallel s)"
  shows "0 \<le> x \<and> x < p_tensor (spec_parallel s)"
proof -
  let ?q = "p_sequence (spec_parallel s)" and ?T = "p_tensor (spec_parallel s)"
  have q: "0 < ?q" using valid_spec_dims [OF v] by simp
  from valid_spec_seq [OF v] obtain k where k: "?T = ?q * k"
    by (auto simp: mod_eq_0_iff_dvd)
  with t(2) q have "t div ?q < k" by (simp add: div_less_if mult.commute)
  then have "(t div ?q + 1) * ?q \<le> k * ?q"
    using q by (intro mult_right_mono) auto
  then have "(t div ?q) * ?q + ?q \<le> ?T" by (simp add: k algebra_simps)
  moreover have "0 \<le> (t div ?q) * ?q" using t(1) q by (simp add: pos_imp_zdiv_nonneg_iff)
  ultimately show ?thesis using x by linarith
qed

lemma rank_info_Inr:
  assumes v: "valid_spec s" and r: "0 \<le> r" "r < spec_world_size s"
  shows "rank_info s r = Inr (rank_info_of (spec_parallel s) r)"
proof -
  let ?p = "spec_parallel s"
  let ?i = "rank_coordinates ?p r"
  let ?d = "info_data_rank ?i" and ?pp = "info_pipeline_rank ?i" and ?c = "info_context_rank ?i"
    and ?t = "info_tensor_rank ?i" and ?e = "info_expert_rank ?i"
  let ?block = "(?t div p_sequence ?p) * p_sequence ?p"
  have ok: "coords_ok ?p ?d ?pp ?c ?t ?e"
    using coordinates_ok [OF v r] by simp
  then have t: "0 \<le> ?t" "?t < p_tensor ?p" by (auto simp: coords_ok_def)
  have g: "global_rank s d pp c t e = Inr (rank_of ?p d pp c t e)"
    if "coords_ok ?p d pp c t e" for d pp c t e
    using v that by (rule global_rank_Inr)
  have block: "coords_ok ?p ?d ?pp ?c x ?e"
    if "x \<in> set [?block..?block + p_sequence ?p - 1]" for x
  proof -
    from that have "?block \<le> x" "x < ?block + p_sequence ?p" by simp_all
    then have "0 \<le> x \<and> x < p_tensor ?p" by (rule sequence_block_bounds [OF v t])
    with ok show ?thesis by (simp add: coords_ok_def)
  qed
  have 1: "map_result (\<lambda>d'. global_rank s d' ?pp ?c ?t ?e) [0..p_data ?p - 1] =
      Inr (map (\<lambda>d'. rank_of ?p d' ?pp ?c ?t ?e) [0..p_data ?p - 1])"
    by (rule map_result_Inr, rule g) (use ok in \<open>auto simp: coords_ok_def\<close>)
  have 2: "map_result (\<lambda>t'. global_rank s ?d ?pp ?c t' ?e) [0..p_tensor ?p - 1] =
      Inr (map (\<lambda>t'. rank_of ?p ?d ?pp ?c t' ?e) [0..p_tensor ?p - 1])"
    by (rule map_result_Inr, rule g) (use ok in \<open>auto simp: coords_ok_def\<close>)
  have 3: "map_result (\<lambda>pp'. global_rank s ?d pp' ?c ?t ?e) [0..p_pipeline ?p - 1] =
      Inr (map (\<lambda>pp'. rank_of ?p ?d pp' ?c ?t ?e) [0..p_pipeline ?p - 1])"
    by (rule map_result_Inr, rule g) (use ok in \<open>auto simp: coords_ok_def\<close>)
  have 4: "map_result (\<lambda>c'. global_rank s ?d ?pp c' ?t ?e) [0..p_context ?p - 1] =
      Inr (map (\<lambda>c'. rank_of ?p ?d ?pp c' ?t ?e) [0..p_context ?p - 1])"
    by (rule map_result_Inr, rule g) (use ok in \<open>auto simp: coords_ok_def\<close>)
  have 5: "map_result (\<lambda>e'. global_rank s ?d ?pp ?c ?t e') [0..p_expert ?p - 1] =
      Inr (map (\<lambda>e'. rank_of ?p ?d ?pp ?c ?t e') [0..p_expert ?p - 1])"
    by (rule map_result_Inr, rule g) (use ok in \<open>auto simp: coords_ok_def\<close>)
  have 6: "map_result (\<lambda>t'. global_rank s ?d ?pp ?c t' ?e) [?block..?block + p_sequence ?p - 1] =
      Inr (map (\<lambda>t'. rank_of ?p ?d ?pp ?c t' ?e) [?block..?block + p_sequence ?p - 1])"
    by (rule map_result_Inr, rule g, rule block)
  have 7: "map_result (\<lambda>(pp', c', t', e'). global_rank s ?d pp' c' t' e') L =
      Inr (map (\<lambda>(pp', c', t', e'). rank_of ?p ?d pp' c' t' e') L)"
    if "L = (List.product [0..p_pipeline ?p - 1] (List.product [0..p_context ?p - 1]
              (List.product [0..p_tensor ?p - 1] [0..p_expert ?p - 1])))" for L
    by (rule map_result_Inr) (use ok that in \<open>auto simp: coords_ok_def intro!: g\<close>)
  have s: "?t sdiv p_sequence ?p = ?t div p_sequence ?p"
    using t valid_spec_dims [OF v] by (simp add: sdiv_nonneg)
  show ?thesis
    using r by (simp add: rank_info_def rank_info_of_def Let_def s 1 2 3 4 5 6 7 [OF refl])
qed


lemma rank_info_of_coords:
  "info_rank (rank_info_of p r) = info_rank (rank_coordinates p r)"
  "info_data_rank (rank_info_of p r) = info_data_rank (rank_coordinates p r)"
  "info_pipeline_rank (rank_info_of p r) = info_pipeline_rank (rank_coordinates p r)"
  "info_context_rank (rank_info_of p r) = info_context_rank (rank_coordinates p r)"
  "info_tensor_rank (rank_info_of p r) = info_tensor_rank (rank_coordinates p r)"
  "info_expert_rank (rank_info_of p r) = info_expert_rank (rank_coordinates p r)"
  "info_sequence_rank (rank_info_of p r) = info_sequence_rank (rank_coordinates p r)"
  by (simp_all add: rank_info_of_def Let_def)

lemma rank_info_returns_iff:
  assumes "valid_spec s"
  shows "rank_info s r = Inr i \<longleftrightarrow> 0 \<le> r \<and> r < spec_world_size s \<and> i = rank_info_of (spec_parallel s) r"
  using rank_info_Inr [OF assms, of r] by (auto simp: rank_info_def)

lemma global_rank_rank_info:
  assumes v: "valid_spec s" and i: "rank_info s r = Inr i"
  shows "global_rank s (info_data_rank i) (info_pipeline_rank i) (info_context_rank i)
        (info_tensor_rank i) (info_expert_rank i) = Inr r"
proof -
  from i v have r: "0 \<le> r" "r < spec_world_size s" and "i = rank_info_of (spec_parallel s) r"
    by (auto simp: rank_info_returns_iff)
  then show ?thesis
    using coordinates_ok [OF v r] by (simp add: rank_info_of_coords global_rank_Inr [OF v])
qed

lemma rank_of_in_world:
  assumes v: "valid_spec s" and c: "coords_ok (spec_parallel s) d pp c t e"
  shows "0 \<le> rank_of (spec_parallel s) d pp c t e"
    "rank_of (spec_parallel s) d pp c t e < spec_world_size s"
  using rank_of_prefix_bounds(4) [OF c] valid_spec_world [OF v] by auto

lemma rank_info_global_rank:
  assumes v: "valid_spec s" and c: "coords_ok (spec_parallel s) d pp c t e"
  shows "\<exists>r i. global_rank s d pp c t e = Inr r \<and> 0 \<le> r \<and> r < spec_world_size s \<and>
        rank_info s r = Inr i \<and> info_data_rank i = d \<and> info_pipeline_rank i = pp \<and>
        info_context_rank i = c \<and> info_tensor_rank i = t \<and> info_expert_rank i = e"
  using c rank_of_in_world [OF v c]
  by (simp add: global_rank_Inr [OF v] rank_info_Inr [OF v] rank_info_of_coords coordinates_rank_of)

text \<open>
  Claim C1. On a validated spec, ranks and coordinates are in bijection: \<open>rank_info\<close> succeeds on
  exactly the ranks \<open>0..world_size-1\<close>, and \<open>global_rank\<close> maps the coordinates it returns back to
  the rank; conversely \<open>global_rank\<close> of any coordinates in range returns (no
  \<^verbatim>\<open>int64_t\<close> step overflows) a rank of the world whose \<open>rank_info\<close> has exactly these
  coordinates.
\<close>

theorem rank_coordinates_bijection:
  assumes "valid_spec s"
  shows "((\<exists>i. rank_info s r = Inr i) \<longleftrightarrow> 0 \<le> r \<and> r < spec_world_size s) \<and>
    (\<forall>i. rank_info s r = Inr i \<longrightarrow>
      global_rank s (info_data_rank i) (info_pipeline_rank i) (info_context_rank i)
        (info_tensor_rank i) (info_expert_rank i) = Inr r) \<and>
    (coords_ok (spec_parallel s) d pp c t e \<longrightarrow>
      (\<exists>r i. global_rank s d pp c t e = Inr r \<and> 0 \<le> r \<and> r < spec_world_size s \<and>
        rank_info s r = Inr i \<and> info_data_rank i = d \<and> info_pipeline_rank i = pp \<and>
        info_context_rank i = c \<and> info_tensor_rank i = t \<and> info_expert_rank i = e))"
  using assms global_rank_rank_info rank_info_global_rank by (simp add: rank_info_returns_iff)

definition example_spec :: cluster_spec where
  "example_spec =
     \<lparr> spec_world_size = 24, spec_rank = 5, spec_local_world_size = 4, spec_local_rank = 1,
       spec_node_rank = 1, spec_gpus_per_node = 8,
       spec_parallel = \<lparr> p_data = 2, p_tensor = 2, p_pipeline = 3, p_context = 2, p_expert = 1,
                         p_sequence = 2, p_micro_batches = 4 \<rparr>,
       spec_memory = \<lparr> param_dtype = BFloat16, reduce_dtype = Float32, activation_checkpointing = True,
                       overlap_grad_reduce = True, overlap_param_gather = True,
                       shard_optimizer = True, shard_gradients = True,
                       cpu_optimizer_offload = False, cpu_param_offload = False,
                       max_activation_bytes_per_rank = 0 \<rparr>,
       spec_network = \<lparr> socket_ifnames = [''eth0'', ''eth1''], ib_hcas = [], nccl_topo_file = [],
                        nccl_ib_gid_index = 3, enable_nvls = True, enable_p2p = True,
                        enable_ib = False \<rparr> \<rparr>"

lemma example_spec_valid: "valid_spec example_spec"
  by (simp add: valid_spec_iff example_spec_def expected_world_Inr i64_ok_def smod_nonneg)

lemma example_global_rank: "global_rank example_spec 1 2 0 1 0 = Inr 21"
  by (simp add: global_rank_def example_spec_def mul64_def add64_def i64_ok_def)

theorem rank_coordinates_bijection_witness:
  "global_rank example_spec 1 2 0 1 0 = Inr 21 \<and>
   (\<exists>r i. global_rank example_spec 1 2 0 1 0 = Inr r \<and> rank_info example_spec r = Inr i \<and>
      info_pipeline_rank i = 2)"
proof -
  have "coords_ok (spec_parallel example_spec) 1 2 0 1 0"
    by (simp add: coords_ok_def example_spec_def)
  then show ?thesis
    using rank_coordinates_bijection [OF example_spec_valid, of 21 1 2 0 1 0] example_global_rank
    by blast
qed

section \<open>Process groups\<close>











section \<open>Layer ranges\<close>

text \<open>The first layer of stage \<open>k\<close> of \<open>P\<close>, for \<open>k\<close> up to \<open>P\<close>.\<close>

definition layer_bound :: "int \<Rightarrow> int \<Rightarrow> int \<Rightarrow> int" where
  "layer_bound P n k = k * (n div P) + min k (n mod P)"

lemma pipeline_layer_range_Inr:
  assumes "valid_spec s" "0 \<le> n" "0 \<le> k" "k < p_pipeline (spec_parallel s)"
  defines "P \<equiv> p_pipeline (spec_parallel s)"
  shows "pipeline_layer_range s n k =
    Inr \<lparr> layer_begin = layer_bound P n k, layer_end = layer_bound P n (k + 1) \<rparr>"
proof -
  have "0 < P" using valid_spec_dims [OF assms(1)] by (simp add: P_def)
  then have "n sdiv P = n div P" "n smod P = n mod P"
    using assms(2) by (simp_all add: sdiv_nonneg smod_nonneg)
  then show ?thesis
    using assms by (simp add: pipeline_layer_range_def layer_bound_def Let_def algebra_simps)
qed

lemma layer_bound_0: "0 \<le> n \<Longrightarrow> 0 < P \<Longrightarrow> layer_bound P n 0 = 0"
  by (simp add: layer_bound_def)

lemma layer_bound_P: "0 < P \<Longrightarrow> layer_bound P n P = n"
  using div_mult_mod_eq [of n P] pos_mod_bound [of P n] by (simp add: layer_bound_def mult.commute)

lemma layer_bound_step: "layer_bound P n (k + 1) - layer_bound P n k \<in> {n div P, n div P + 1}"
  by (auto simp: layer_bound_def algebra_simps min_def)

lemma layer_bound_mono:
  assumes "0 \<le> n" "0 < P" "j \<le> k"
  shows "layer_bound P n j \<le> layer_bound P n k"
proof -
  have "0 \<le> n div P" using assms by (simp add: pos_imp_zdiv_nonneg_iff)
  then show ?thesis
    unfolding layer_bound_def using assms by (intro add_mono mult_right_mono min.mono) auto
qed

lemma layer_bound_cover:
  assumes "0 \<le> n" "0 < P" "0 \<le> l" "l < layer_bound P n (int m)"
  shows "\<exists>k<m. layer_bound P n (int k) \<le> l \<and> l < layer_bound P n (int k + 1)"
  using assms(3,4)
proof (induction m)
  case 0
  then show ?case using layer_bound_0 [OF assms(1,2)] by simp
next
  case (Suc m)
  show ?case
  proof (cases "l < layer_bound P n (int m)")
    case True
    then show ?thesis using Suc by (auto simp: less_Suc_eq)
  next
    case False
    then show ?thesis using Suc.prems by (intro exI [of _ m]) (simp add: add.commute)
  qed
qed

lemma layer_bound_unique:
  assumes "0 \<le> n" "0 < P" "layer_bound P n (int j) \<le> l" "l < layer_bound P n (int j + 1)"
    "layer_bound P n (int k) \<le> l" "l < layer_bound P n (int k + 1)"
  shows "j = k"
proof (cases j k rule: linorder_cases)
  case less
  then have "layer_bound P n (int j + 1) \<le> layer_bound P n (int k)"
    by (intro layer_bound_mono assms) simp
  then show ?thesis using assms by simp
next
  case greater
  then have "layer_bound P n (int k + 1) \<le> layer_bound P n (int j)"
    by (intro layer_bound_mono assms) simp
  then show ?thesis using assms by simp
qed

text \<open>
  Claim C3. The pipeline stages split the layers: each stage gets a contiguous range of
  \<open>n div P\<close> or \<open>n div P + 1\<close> layers, the ranges follow one another from \<open>0\<close> to
  \<open>num_layers\<close>, and so every layer belongs to exactly one stage.
\<close>

theorem pipeline_layer_ranges_partition:
  assumes v: "valid_spec s" and n: "0 \<le> n"
  shows "\<exists>rs. map_result (pipeline_layer_range s n) [0..p_pipeline (spec_parallel s) - 1] = Inr rs \<and>
    length rs = nat (p_pipeline (spec_parallel s)) \<and>
    layer_begin (rs ! 0) = 0 \<and> layer_end (last rs) = n \<and>
    (\<forall>k. Suc k < length rs \<longrightarrow> layer_end (rs ! k) = layer_begin (rs ! Suc k)) \<and>
    (\<forall>r \<in> set rs. layer_end r - layer_begin r \<in>
       {n div p_pipeline (spec_parallel s), n div p_pipeline (spec_parallel s) + 1}) \<and>
    (\<forall>l. 0 \<le> l \<and> l < n \<longrightarrow>
       (\<exists>!k. k < length rs \<and> layer_begin (rs ! k) \<le> l \<and> l < layer_end (rs ! k)))"
proof -
  let ?P = "p_pipeline (spec_parallel s)" and ?b = "layer_bound (p_pipeline (spec_parallel s)) n"
  have P: "0 < ?P" using valid_spec_dims [OF v] by simp
  define rs where "rs = map (\<lambda>k. \<lparr> layer_begin = ?b k, layer_end = ?b (k + 1) \<rparr>) [0..?P - 1]"
  have 1: "map_result (pipeline_layer_range s n) [0..?P - 1] = Inr rs"
    unfolding rs_def by (rule map_result_Inr) (simp add: pipeline_layer_range_Inr [OF v n])
  have len: "length rs = nat ?P" by (simp add: rs_def)
  have nth: "layer_begin (rs ! k) = ?b (int k)" "layer_end (rs ! k) = ?b (int k + 1)"
    if "k < length rs" for k
    using that by (simp_all add: rs_def nth_upto)
  have first: "layer_begin (rs ! 0) = 0"
    using nth(1) [of 0] P len layer_bound_0 [OF n P] by simp
  have last: "layer_end (last rs) = n"
    using P len nth(2) [of "length rs - 1"] layer_bound_P [OF P, of n]
    by (subst last_conv_nth) (auto simp: rs_def)
  have cover: "\<exists>!k. k < length rs \<and> layer_begin (rs ! k) \<le> l \<and> l < layer_end (rs ! k)"
    if l: "0 \<le> l" "l < n" for l
  proof -
    from layer_bound_cover [OF n P l(1), of "nat ?P"] l P layer_bound_P [OF P, of n]
    obtain k where "k < nat ?P" "?b (int k) \<le> l" "l < ?b (int k + 1)" by auto
    then show ?thesis
      using nth len layer_bound_unique [OF n P] by (intro ex1I [of _ k]) auto
  qed
  have sizes: "\<forall>r \<in> set rs. layer_end r - layer_begin r \<in> {n div ?P, n div ?P + 1}"
    unfolding rs_def using layer_bound_step by auto
  have chain: "\<forall>k. Suc k < length rs \<longrightarrow> layer_end (rs ! k) = layer_begin (rs ! Suc k)"
    using nth by (auto simp: add.commute)
  show ?thesis
    using 1 len first last chain sizes cover by blast
qed

theorem pipeline_layer_ranges_partition_witness:
  "\<exists>rs. map_result (pipeline_layer_range example_spec 8) [0..2] = Inr rs \<and> length rs = 3 \<and>
     layer_end (last rs) = 8"
  using pipeline_layer_ranges_partition [OF example_spec_valid, of 8] by (auto simp: example_spec_def)

end
