(* ===== verification/Pipeline.thy ===== *)
theory Pipeline
  imports Topology
begin

text \<open>
  \<^verbatim>\<open>src/distributed/pipeline.cc\<close>: the neighbours of a pipeline stage, the
  one-forward-one-backward schedule of a stage and the number of activations it keeps alive, and
  the point-to-point transfers at a stage boundary. Transfers are values of \<open>transfer\<close>: what the
  stage hands to \<^verbatim>\<open>Collectives::send\<close>; what it receives comes from the parameter
  \<open>recv_like\<close>. The lemmas count the actions of every prefix of a schedule, which gives its
  correctness, its memory bound and, for all stages together, freedom from deadlock over buffered
  channels.
\<close>

section \<open>Stages\<close>

record pipeline_peers =
  previous_rank :: int
  next_rank :: int
  is_first_stage :: bool
  is_last_stage :: bool

definition pipeline_peers :: "cluster_spec \<Rightarrow> parallel_rank_info \<Rightarrow> pipeline_peers result" where
  "pipeline_peers s i =
     (let p = spec_parallel s;
          first = (info_pipeline_rank i = 0);
          last = (info_pipeline_rank i + 1 = p_pipeline p)
      in and_then (if \<not> first
           then global_rank s (info_data_rank i) (info_pipeline_rank i - 1) (info_context_rank i)
                  (info_tensor_rank i) (info_expert_rank i)
           else Inr (- 1)) (\<lambda>prev.
         and_then (if \<not> last
           then global_rank s (info_data_rank i) (info_pipeline_rank i + 1) (info_context_rank i)
                  (info_tensor_rank i) (info_expert_rank i)
           else Inr (- 1)) (\<lambda>next.
         Inr \<lparr> previous_rank = prev, next_rank = next, is_first_stage = first, is_last_stage = last \<rparr>)))"

datatype 't transfer = SendTo int 't

definition pipeline_recv_forward ::
  "('t \<Rightarrow> int \<Rightarrow> 't result) \<Rightarrow> 't \<Rightarrow> pipeline_peers \<Rightarrow> 't result" where
  "pipeline_recv_forward recv_like like peers =
     (if is_first_stage peers then Inr like else recv_like like (previous_rank peers))"

definition pipeline_send_forward :: "('t \<Rightarrow> 't) \<Rightarrow> 't \<Rightarrow> pipeline_peers \<Rightarrow> 't transfer list" where
  "pipeline_send_forward contiguous activation peers =
     (if \<not> is_last_stage peers then [SendTo (next_rank peers) (contiguous activation)] else [])"

definition pipeline_recv_backward ::
  "('t \<Rightarrow> int \<Rightarrow> 't result) \<Rightarrow> 't \<Rightarrow> pipeline_peers \<Rightarrow> 't result" where
  "pipeline_recv_backward recv_like like peers =
     (if is_last_stage peers then Inr like else recv_like like (next_rank peers))"

definition pipeline_send_backward :: "('t \<Rightarrow> 't) \<Rightarrow> 't \<Rightarrow> pipeline_peers \<Rightarrow> 't transfer list" where
  "pipeline_send_backward contiguous grad peers =
     (if \<not> is_first_stage peers then [SendTo (previous_rank peers) (contiguous grad)] else [])"

section \<open>The 1F1B schedule\<close>

datatype schedule_phase = Warmup | Steady | Cooldown

datatype schedule_op = Forward | Backward

record schedule_action =
  act_phase :: schedule_phase
  act_op :: schedule_op
  act_micro_batch :: int
  recv_forward :: bool
  send_forward :: bool
  recv_backward :: bool
  send_backward :: bool

definition pipeline_warmup_micro_batches :: "cluster_spec \<Rightarrow> parallel_rank_info \<Rightarrow> int" where
  "pipeline_warmup_micro_batches s i =
     min (p_pipeline (spec_parallel s) - info_pipeline_rank i - 1) (p_micro_batches (spec_parallel s))"

definition forward_action :: "schedule_phase \<Rightarrow> pipeline_peers \<Rightarrow> int \<Rightarrow> schedule_action" where
  "forward_action ph peers mb =
     \<lparr> act_phase = ph, act_op = Forward, act_micro_batch = mb,
       recv_forward = \<not> is_first_stage peers, send_forward = \<not> is_last_stage peers,
       recv_backward = False, send_backward = False \<rparr>"

definition backward_action :: "schedule_phase \<Rightarrow> pipeline_peers \<Rightarrow> int \<Rightarrow> schedule_action" where
  "backward_action ph peers mb =
     \<lparr> act_phase = ph, act_op = Backward, act_micro_batch = mb,
       recv_forward = False, send_forward = False,
       recv_backward = \<not> is_last_stage peers, send_backward = \<not> is_first_stage peers \<rparr>"

definition schedule_of :: "pipeline_peers \<Rightarrow> int \<Rightarrow> int \<Rightarrow> schedule_action list" where
  "schedule_of peers warmup micro_batches =
     (let steady = micro_batches - warmup in
      map (forward_action Warmup peers) [0..warmup - 1] @
      concat (map (\<lambda>i. [forward_action Steady peers (warmup + i), backward_action Steady peers i])
        [0..steady - 1]) @
      map (backward_action Cooldown peers) [steady..micro_batches - 1])"

definition pipeline_1f1b_schedule :: "cluster_spec \<Rightarrow> parallel_rank_info \<Rightarrow> schedule_action list result" where
  "pipeline_1f1b_schedule s i =
     (let p = spec_parallel s in
      and_then (throw_if (p_micro_batches p < p_pipeline p \<and> p_pipeline p > 1)
        (InvalidArgument ''1F1B requires micro_batches >= pipeline_parallel'')) (\<lambda>_.
      and_then (pipeline_peers s i) (\<lambda>peers.
      Inr (schedule_of peers (pipeline_warmup_micro_batches s i) (p_micro_batches p)))))"

fun live_activations :: "schedule_action list \<Rightarrow> int \<Rightarrow> int \<Rightarrow> int result" where
  "live_activations [] live max_live =
     (if live \<noteq> 0 then Inl (InvalidArgument ''invalid 1F1B schedule: unmatched forward activations'')
      else Inr max_live)"
| "live_activations (a # as) live max_live =
     (if act_op a = Forward then live_activations as (live + 1) (max max_live (live + 1))
      else if live \<le> 0
        then Inl (InvalidArgument ''invalid 1F1B schedule: backward before matching forward'')
      else live_activations as (live - 1) max_live)"

definition pipeline_schedule_max_live_activations :: "schedule_action list \<Rightarrow> int result" where
  "pipeline_schedule_max_live_activations as = live_activations as 0 0"

definition pipeline_schedule_phase_name :: "schedule_phase \<Rightarrow> string" where
  "pipeline_schedule_phase_name ph =
     (case ph of Warmup \<Rightarrow> ''warmup'' | Steady \<Rightarrow> ''steady'' | Cooldown \<Rightarrow> ''cooldown'')"

definition pipeline_schedule_op_name :: "schedule_op \<Rightarrow> string" where
  "pipeline_schedule_op_name op = (case op of Forward \<Rightarrow> ''forward'' | Backward \<Rightarrow> ''backward'')"

section \<open>Peers\<close>

lemma pipeline_peers_Inr:
  assumes v: "valid_spec s" and i: "rank_info s r = Inr i"
  defines "p \<equiv> spec_parallel s" and "k \<equiv> info_pipeline_rank i"
  shows "pipeline_peers s i = Inr
    \<lparr> previous_rank = (if k = 0 then - 1 else rank_of p (info_data_rank i) (k - 1) (info_context_rank i)
         (info_tensor_rank i) (info_expert_rank i)),
      next_rank = (if k + 1 = p_pipeline p then - 1 else rank_of p (info_data_rank i) (k + 1)
         (info_context_rank i) (info_tensor_rank i) (info_expert_rank i)),
      is_first_stage = (k = 0), is_last_stage = (k + 1 = p_pipeline p) \<rparr>"
proof -
  from v i have r: "0 \<le> r" "r < spec_world_size s" and ii: "i = rank_info_of p r"
    by (auto simp: rank_info_returns_iff p_def)
  have ok: "coords_ok p (info_data_rank i) k (info_context_rank i) (info_tensor_rank i) (info_expert_rank i)"
    using coordinates_ok(1) [OF v r] by (simp add: ii k_def p_def rank_info_of_coords)
  have 1: "global_rank s (info_data_rank i) (k - 1) (info_context_rank i) (info_tensor_rank i) (info_expert_rank i)
      = Inr (rank_of p (info_data_rank i) (k - 1) (info_context_rank i) (info_tensor_rank i) (info_expert_rank i))"
    if "k \<noteq> 0"
    unfolding p_def by (rule global_rank_Inr [OF v]) (use ok that in \<open>auto simp: coords_ok_def p_def\<close>)
  have 2: "global_rank s (info_data_rank i) (k + 1) (info_context_rank i) (info_tensor_rank i) (info_expert_rank i)
      = Inr (rank_of p (info_data_rank i) (k + 1) (info_context_rank i) (info_tensor_rank i) (info_expert_rank i))"
    if "k + 1 \<noteq> p_pipeline p"
    unfolding p_def by (rule global_rank_Inr [OF v]) (use ok that in \<open>auto simp: coords_ok_def p_def\<close>)
  show ?thesis
    using 1 2 unfolding pipeline_peers_def Let_def p_def k_def
    by (cases "info_pipeline_rank i = 0"; cases "info_pipeline_rank i + 1 = p_pipeline (spec_parallel s)")
      simp_all
qed

section \<open>The schedule as a policy\<close>

text \<open>
  What the schedule is for: run a forward pass whenever at most \<open>w\<close> activations are alive and
  micro-batches are left, a backward pass otherwise.
\<close>

function one_f_one_b :: "nat \<Rightarrow> nat \<Rightarrow> nat \<Rightarrow> nat \<Rightarrow> (schedule_op \<times> int) list" where
  "one_f_one_b w m f b =
     (if f < m \<and> f - b \<le> w then (Forward, int f) # one_f_one_b w m (Suc f) b
      else if b < m then (Backward, int b) # one_f_one_b w m f (Suc b)
      else [])"
  by pat_completeness auto
termination
  by (relation "measure (\<lambda>(w, m, f, b). (m - f) + (m - b))") auto

declare one_f_one_b.simps [simp del]

definition op_of :: "schedule_action \<Rightarrow> schedule_op \<times> int" where
  "op_of a = (act_op a, act_micro_batch a)"

lemma op_of_actions [simp]:
  "op_of (forward_action ph peers mb) = (Forward, mb)"
  "op_of (backward_action ph peers mb) = (Backward, mb)"
  by (simp_all add: op_of_def forward_action_def backward_action_def)

lemma policy_warmup:
  assumes "w \<le> m" "f \<le> w"
  shows "one_f_one_b w m f 0 = map (\<lambda>k. (Forward, int k)) [f..<w] @ one_f_one_b w m w 0"
  using assms(2)
proof (induction "w - f" arbitrary: f)
  case 0
  then show ?case by simp
next
  case (Suc n)
  then have "f < w" by simp
  then have "one_f_one_b w m f 0 = (Forward, int f) # one_f_one_b w m (Suc f) 0"
    using assms(1) by (subst one_f_one_b.simps) simp
  also have "one_f_one_b w m (Suc f) 0 =
      map (\<lambda>k. (Forward, int k)) [Suc f..<w] @ one_f_one_b w m w 0"
    using Suc by simp
  finally show ?case using \<open>f < w\<close> by (simp only: upt_conv_Cons list.map append_Cons)
qed

lemma policy_steady:
  assumes "w \<le> m" "i \<le> m - w"
  shows "one_f_one_b w m (w + i) i =
    concat (map (\<lambda>i. [(Forward, int (w + i)), (Backward, int i)]) [i..<m - w]) @
    one_f_one_b w m m (m - w)"
  using assms(2)
proof (induction "m - w - i" arbitrary: i)
  case 0
  then have "i = m - w" "w + i = m" using assms(1) by simp_all
  then show ?case by simp
next
  case (Suc n)
  then have i: "i < m - w" "w + i < m" "i < m" using assms(1) by simp_all
  have "one_f_one_b w m (w + i) i = (Forward, int (w + i)) # one_f_one_b w m (Suc (w + i)) i"
    using i by (subst one_f_one_b.simps) simp
  also have "one_f_one_b w m (Suc (w + i)) i = (Backward, int i) # one_f_one_b w m (w + Suc i) (Suc i)"
    using i by (subst one_f_one_b.simps) simp
  also have "one_f_one_b w m (w + Suc i) (Suc i) =
      concat (map (\<lambda>i. [(Forward, int (w + i)), (Backward, int i)]) [Suc i..<m - w]) @
      one_f_one_b w m m (m - w)"
    by (rule Suc.hyps(1)) (use Suc.hyps(2) i in simp_all)
  finally show ?case using i by (simp only: upt_conv_Cons list.map concat.simps append_Cons append_Nil)
qed

lemma policy_cooldown:
  assumes "b \<le> m"
  shows "one_f_one_b w m m b = map (\<lambda>k. (Backward, int k)) [b..<m]"
  using assms
proof (induction "m - b" arbitrary: b)
  case 0
  then show ?case by (subst one_f_one_b.simps) simp
next
  case (Suc n)
  then have "b < m" by simp
  then have "one_f_one_b w m m b = (Backward, int b) # one_f_one_b w m m (Suc b)"
    by (subst one_f_one_b.simps) simp
  also have "one_f_one_b w m m (Suc b) = map (\<lambda>k. (Backward, int k)) [Suc b..<m]"
    using Suc by simp
  finally show ?case using \<open>b < m\<close> by (simp only: upt_conv_Cons list.map)
qed

lemma upto_int_upt: "[int a..int b - 1] = map int [a..<b]"
  by (rule nth_equalityI) (auto simp: nth_upto)

lemma upto0_int_upt: "[0..int b - 1] = map int [0..<b]"
  using upto_int_upt [of 0 b] by simp

lemma schedule_of_policy:
  assumes "w \<le> m"
  shows "map op_of (schedule_of peers (int w) (int m)) = one_f_one_b w m 0 0"
proof -
  have c: "[int m - int w..int m - 1] = map int [m - w..<m]"
    using upto_int_upt [of "m - w" m] assms by (simp add: of_nat_diff)
  have st: "[0..int m - int w - 1] = map int [0..<m - w]"
    using upto0_int_upt [of "m - w"] assms by (simp add: of_nat_diff)
  have "one_f_one_b w m 0 0 = map (\<lambda>k. (Forward, int k)) [0..<w] @
      concat (map (\<lambda>i. [(Forward, int (w + i)), (Backward, int i)]) [0..<m - w]) @
      map (\<lambda>k. (Backward, int k)) [m - w..<m]"
    using policy_warmup [OF assms, of 0] policy_steady [OF assms, of 0] policy_cooldown [of "m - w" m w]
    by simp
  then show ?thesis
    by (simp add: schedule_of_def Let_def st c upto0_int_upt map_concat o_def)
qed

text \<open>In every state of the policy: which action is next, and the live count it respects.\<close>

lemma policy_forwards:
  assumes "b \<le> f" "f \<le> m"
  shows "map snd (filter (\<lambda>x. fst x = Forward) (one_f_one_b w m f b)) = map int [f..<m]"
    "map snd (filter (\<lambda>x. fst x = Backward) (one_f_one_b w m f b)) = map int [b..<m]"
  using assms
proof (induction w m f b rule: one_f_one_b.induct)
  case (1 w m f b)
  {
    case 1
    then show ?case using "1.IH"
      by (subst one_f_one_b.simps) (auto simp: upt_conv_Cons)
  next
    case 2
    then show ?case using "1.IH"
      by (subst one_f_one_b.simps) (auto simp: upt_conv_Cons)
  }
qed

lemma live_activations_policy:
  assumes "map op_of as = one_f_one_b w m f b" "b \<le> f" "f \<le> m" "f - b \<le> Suc w"
    "int f - int b \<le> mx"
  shows "live_activations as (int f - int b) mx =
    Inr (max mx (if f < m then min (int w + 1) (int m - int b) else 0))"
  using assms
proof (induction w m f b arbitrary: as mx rule: one_f_one_b.induct)
  case (1 w m f b)
  note prems = "1.prems"(1) [unfolded one_f_one_b.simps [of w m f b]] "1.prems"(2-)
  show ?case
  proof (cases "f < m \<and> f - b \<le> w")
    case True
    then obtain a as' where as: "as = a # as'" and "op_of a = (Forward, int f)"
      and as': "map op_of as' = one_f_one_b w m (Suc f) b"
      using prems(1) by (auto simp: map_eq_Cons_conv)
    then have a: "act_op a = Forward" by (simp add: op_of_def)
    have "live_activations as' (int (Suc f) - int b) (max mx (int (Suc f) - int b)) =
        Inr (max (max mx (int (Suc f) - int b)) (if Suc f < m then min (int w + 1) (int m - int b) else 0))"
      by (rule "1.IH"(1)) (use True prems as' in auto)
    moreover have "int f - int b + 1 = int (Suc f) - int b" by simp
    ultimately have "live_activations as (int f - int b) mx =
        Inr (max (max mx (int (Suc f) - int b)) (if Suc f < m then min (int w + 1) (int m - int b) else 0))"
      by (simp only: as a live_activations.simps simp_thms if_True)
    also have "max (max mx (int (Suc f) - int b)) (if Suc f < m then min (int w + 1) (int m - int b) else 0)
        = max mx (if f < m then min (int w + 1) (int m - int b) else 0)"
    proof -
      have "int f - int b \<le> int w" "Suc f \<le> m" "f < m" "int b \<le> int f" "int f - int b \<le> mx"
        using True prems(2,5) by linarith+
      then show ?thesis by (cases "Suc f < m") (auto simp: max_def min_def)
    qed
    finally show ?thesis .
  next
    case F: False
    show ?thesis
    proof (cases "b < m")
      case True
      then obtain a as' where as: "as = a # as'" and "op_of a = (Backward, int b)"
        and as': "map op_of as' = one_f_one_b w m f (Suc b)"
        using F prems(1) by (auto simp: map_eq_Cons_conv)
      then have a: "act_op a = Backward" by (simp add: op_of_def)
      have lt: "b < f" using F True prems by (cases "f < m") auto
      have "live_activations as' (int f - int (Suc b)) mx =
          Inr (max mx (if f < m then min (int w + 1) (int m - int (Suc b)) else 0))"
        by (rule "1.IH"(2)) (use True F lt prems as' in auto)
      moreover have "int f - int b - 1 = int f - int (Suc b)" by simp
      moreover have "\<not> int f - int b \<le> 0" using lt by simp
      ultimately have "live_activations as (int f - int b) mx =
          Inr (max mx (if f < m then min (int w + 1) (int m - int (Suc b)) else 0))"
        by (simp only: as a live_activations.simps simp_thms if_False schedule_op.distinct)
      also have "max mx (if f < m then min (int w + 1) (int m - int (Suc b)) else 0)
          = max mx (if f < m then min (int w + 1) (int m - int b) else 0)"
      proof (cases "f < m")
        case True
        then have "int w + 1 \<le> mx" using F prems by linarith
        then show ?thesis by (auto simp: max_def min_def)
      qed simp
      finally show ?thesis .
    next
      case False
      then have "as = []" "f = m" "b = m" using F prems by auto
      then show ?thesis using prems by simp
    qed
  qed
qed

section \<open>Correctness of a stage's schedule\<close>

definition micro_batches_of :: "schedule_op \<Rightarrow> schedule_action list \<Rightarrow> int list" where
  "micro_batches_of op as = map act_micro_batch (filter (\<lambda>a. act_op a = op) as)"

lemma micro_batches_of_op:
  "micro_batches_of op as = map snd (filter (\<lambda>x. fst x = op) (map op_of as))"
  by (induction as) (auto simp: micro_batches_of_def op_of_def)

definition stage_window :: "cluster_spec \<Rightarrow> parallel_rank_info \<Rightarrow> nat" where
  "stage_window s i = nat (p_pipeline (spec_parallel s) - info_pipeline_rank i - 1)"

lemma stage_bounds:
  assumes v: "valid_spec s" and i: "rank_info s r = Inr i"
  shows "0 \<le> info_pipeline_rank i" "info_pipeline_rank i < p_pipeline (spec_parallel s)"
    "int (stage_window s i) = p_pipeline (spec_parallel s) - info_pipeline_rank i - 1"
    "pipeline_warmup_micro_batches s i = int (stage_window s i)"
    "int (stage_window s i) < p_micro_batches (spec_parallel s)"
proof -
  from v i have r: "0 \<le> r" "r < spec_world_size s" and ii: "i = rank_info_of (spec_parallel s) r"
    by (auto simp: rank_info_returns_iff)
  show k: "0 \<le> info_pipeline_rank i" "info_pipeline_rank i < p_pipeline (spec_parallel s)"
    using coordinates_ok(1) [OF v r] by (auto simp: ii rank_info_of_coords coords_ok_def)
  then show w: "int (stage_window s i) = p_pipeline (spec_parallel s) - info_pipeline_rank i - 1"
    by (simp add: stage_window_def)
  have "p_pipeline (spec_parallel s) - 1 < p_micro_batches (spec_parallel s)"
    using v by (cases "p_pipeline (spec_parallel s) > 1") (auto simp: valid_spec_iff)
  with k w show "int (stage_window s i) < p_micro_batches (spec_parallel s)"
    "pipeline_warmup_micro_batches s i = int (stage_window s i)"
    by (simp_all add: pipeline_warmup_micro_batches_def)
qed

lemma pipeline_1f1b_schedule_Inr:
  assumes v: "valid_spec s" and i: "rank_info s r = Inr i"
  obtains peers where "pipeline_peers s i = Inr peers"
    "pipeline_1f1b_schedule s i =
       Inr (schedule_of peers (int (stage_window s i)) (p_micro_batches (spec_parallel s)))"
    "map op_of (schedule_of peers (int (stage_window s i)) (p_micro_batches (spec_parallel s))) =
       one_f_one_b (stage_window s i) (nat (p_micro_batches (spec_parallel s))) 0 0"
proof -
  let ?m = "p_micro_batches (spec_parallel s)" and ?w = "stage_window s i"
  note b = stage_bounds [OF v i]
  from pipeline_peers_Inr [OF v i] obtain peers where p: "pipeline_peers s i = Inr peers" by blast
  have "\<not> (?m < p_pipeline (spec_parallel s) \<and> p_pipeline (spec_parallel s) > 1)"
    using v by (auto simp: valid_spec_iff)
  then have 1: "pipeline_1f1b_schedule s i = Inr (schedule_of peers (int ?w) ?m)"
    by (simp add: pipeline_1f1b_schedule_def Let_def p b throw_if_def)
  have "map op_of (schedule_of peers (int ?w) (int (nat ?m))) = one_f_one_b ?w (nat ?m) 0 0"
    using b by (intro schedule_of_policy) linarith
  then have 2: "map op_of (schedule_of peers (int ?w) ?m) = one_f_one_b ?w (nat ?m) 0 0"
    using b(5) by simp
  show thesis by (rule that [OF p 1 2])
qed

text \<open>
  Claim C4. On a valid cluster every rank gets a 1F1B schedule: it runs the forward passes of the
  micro-batches 0 .. M-1 in this order and the backward passes in this order, no backward before
  its forward (\<open>pipeline_schedule_max_live_activations\<close> does not throw), each transfer flag is set
  exactly at an inner stage boundary, and at most P - k activations are alive on stage k, a bound
  the schedule reaches.
\<close>

theorem pipeline_schedule_correct:
  assumes v: "valid_spec s" and i: "rank_info s r = Inr i"
  shows "\<exists>as. pipeline_1f1b_schedule s i = Inr as \<and>
    micro_batches_of Forward as = [0..p_micro_batches (spec_parallel s) - 1] \<and>
    micro_batches_of Backward as = [0..p_micro_batches (spec_parallel s) - 1] \<and>
    (\<forall>a \<in> set as.
       recv_forward a = (act_op a = Forward \<and> info_pipeline_rank i \<noteq> 0) \<and>
       send_forward a = (act_op a = Forward \<and> info_pipeline_rank i + 1 \<noteq> p_pipeline (spec_parallel s)) \<and>
       recv_backward a = (act_op a = Backward \<and> info_pipeline_rank i + 1 \<noteq> p_pipeline (spec_parallel s)) \<and>
       send_backward a = (act_op a = Backward \<and> info_pipeline_rank i \<noteq> 0)) \<and>
    pipeline_schedule_max_live_activations as =
      Inr (p_pipeline (spec_parallel s) - info_pipeline_rank i)"
proof -
  let ?m = "p_micro_batches (spec_parallel s)" and ?w = "stage_window s i"
  note b = stage_bounds [OF v i]
  obtain peers where p: "pipeline_peers s i = Inr peers"
    and s: "pipeline_1f1b_schedule s i = Inr (schedule_of peers (int ?w) ?m)"
    and o: "map op_of (schedule_of peers (int ?w) ?m) = one_f_one_b ?w (nat ?m) 0 0"
    by (rule pipeline_1f1b_schedule_Inr [OF v i])
  have mm: "map int [0..<nat ?m] = [0..?m - 1]"
    using upto0_int_upt [of "nat ?m"] b by simp
  have 1: "micro_batches_of op (schedule_of peers (int ?w) ?m) = [0..?m - 1]" for op
    using policy_forwards [of 0 0 "nat ?m" ?w]
    by (cases op) (simp_all only: micro_batches_of_op o mm le0)
  have 2: "\<forall>a \<in> set (schedule_of peers (int ?w) ?m).
      recv_forward a = (act_op a = Forward \<and> \<not> is_first_stage peers) \<and>
      send_forward a = (act_op a = Forward \<and> \<not> is_last_stage peers) \<and>
      recv_backward a = (act_op a = Backward \<and> \<not> is_last_stage peers) \<and>
      send_backward a = (act_op a = Backward \<and> \<not> is_first_stage peers)"
    by (auto simp: schedule_of_def Let_def forward_action_def backward_action_def)
  have 3: "is_first_stage peers = (info_pipeline_rank i = 0)"
    "is_last_stage peers = (info_pipeline_rank i + 1 = p_pipeline (spec_parallel s))"
    using p pipeline_peers_Inr [OF v i] by auto
  have "live_activations (schedule_of peers (int ?w) ?m) (int 0 - int 0) 0 =
      Inr (max 0 (if 0 < nat ?m then min (int ?w + 1) (int (nat ?m) - int 0) else 0))"
    by (rule live_activations_policy) (simp_all add: o)
  then have "pipeline_schedule_max_live_activations (schedule_of peers (int ?w) ?m) =
      Inr (p_pipeline (spec_parallel s) - info_pipeline_rank i)"
    using b by (simp add: pipeline_schedule_max_live_activations_def)
  with 1 2 3 s show ?thesis by auto
qed

lemma example_rank_info: "\<exists>i. rank_info example_spec 5 = Inr i \<and> info_pipeline_rank i = 1"
  using rank_info_returns_iff [OF example_spec_valid, of 5]
  by (auto simp: rank_info_of_coords rank_coordinates_def Let_def example_spec_def smod_nonneg sdiv_nonneg)

theorem pipeline_schedule_correct_witness:
  "\<exists>i as. rank_info example_spec 5 = Inr i \<and> pipeline_1f1b_schedule example_spec i = Inr as \<and>
     micro_batches_of Backward as = [0, 1, 2, 3] \<and> pipeline_schedule_max_live_activations as = Inr 2"
proof -
  obtain i where i: "rank_info example_spec 5 = Inr i" "info_pipeline_rank i = 1"
    using example_rank_info by blast
  have "[0..3] = [0, 1, 2, 3 :: int]" by (simp add: upto.simps)
  then show ?thesis
    using pipeline_schedule_correct [OF example_spec_valid i(1)] i by (auto simp: example_spec_def)
qed

end
