(* ===== verification/Pipeline_Run.thy ===== *)
theory Pipeline_Run
  imports Pipeline
begin

text \<open>
  The pipeline in motion: the training loop of
  \<^verbatim>\<open>tools/model/qwen3_5_pp_tp_train_smoke.cc\<close> on every stage of one pipeline, each stage
  working through its 1F1B schedule and exchanging activations and gradients with its neighbours
  over channels that keep the order of the messages of a pair of ranks. The model's layers are the
  parameters of \<open>stage_model\<close>. Sends are buffered: a send never waits for its receive.
\<close>

section \<open>One stage\<close>

text \<open>What autograd and the model's layers compute, as parameters.\<close>

record 'x stage_model =
  token_embeddings :: "int \<Rightarrow> 'x"
  forward_range :: "nat \<Rightarrow> 'x \<Rightarrow> 'x"
  loss_gradient :: "'x \<Rightarrow> 'x"
  input_gradient :: "nat \<Rightarrow> 'x \<Rightarrow> 'x \<Rightarrow> 'x"

record 'x stage_run =
  stage_program :: "schedule_action list"
  stage_inputs :: "int \<rightharpoonup> 'x"
  stage_outputs :: "int \<rightharpoonup> 'x"
  stage_backwards :: "(int \<times> 'x) list"

type_synonym 'x wires = "int \<times> int \<Rightarrow> 'x list"

definition send_to :: "'x wires \<Rightarrow> int \<Rightarrow> int \<Rightarrow> 'x \<Rightarrow> 'x wires" where
  "send_to w src dst x = w((src, dst) := w (src, dst) @ [x])"

definition recv_from :: "'x wires \<Rightarrow> int \<Rightarrow> int \<Rightarrow> ('x \<times> 'x wires) option" where
  "recv_from w src dst =
     (case w (src, dst) of [] \<Rightarrow> None | x # xs \<Rightarrow> Some (x, w((src, dst) := xs)))"

text \<open>
  One turn of the loop: \<open>None\<close> while the receive waits, \<open>Some (Inl e)\<close> when the turn throws.
\<close>

definition run_forward ::
  "'x stage_model \<Rightarrow> nat \<Rightarrow> int \<Rightarrow> pipeline_peers \<Rightarrow> int \<Rightarrow> 'x stage_run \<times> 'x wires \<Rightarrow>
     ('x stage_run \<times> 'x wires) result option" where
  "run_forward M k me peers mb = (\<lambda>(st, w).
     let finish = (\<lambda>input st w.
           let output = forward_range M k input;
               st' = st\<lparr>stage_outputs := (stage_outputs st)(mb \<mapsto> output)\<rparr>
           in Some (Inr (st', if \<not> is_last_stage peers then send_to w me (next_rank peers) output else w)))
     in if is_first_stage peers then finish (token_embeddings M mb) st w
        else case recv_from w (previous_rank peers) me of
            None \<Rightarrow> None
          | Some (input, w') \<Rightarrow>
              finish input (st\<lparr>stage_inputs := (stage_inputs st)(mb \<mapsto> input)\<rparr>) w')"

definition run_backward ::
  "'x stage_model \<Rightarrow> nat \<Rightarrow> int \<Rightarrow> pipeline_peers \<Rightarrow> int \<Rightarrow> 'x stage_run \<times> 'x wires \<Rightarrow>
     ('x stage_run \<times> 'x wires) result option" where
  "run_backward M k me peers mb = (\<lambda>(st, w).
     case stage_outputs st mb of
       None \<Rightarrow> Some (Inl (RuntimeError ''missing stage activation for backward''))
     | Some output \<Rightarrow>
         let finish = (\<lambda>grad w.
               let st1 = st\<lparr>stage_backwards := stage_backwards st @ [(mb, grad)]\<rparr> in
               if \<not> is_first_stage peers
               then case stage_inputs st mb of
                   None \<Rightarrow> Some (Inl (RuntimeError ''missing stage input for backward''))
                 | Some input \<Rightarrow>
                     Some (Inr (st1\<lparr>stage_inputs := (stage_inputs st)(mb := None),
                                    stage_outputs := (stage_outputs st)(mb := None)\<rparr>,
                       send_to w me (previous_rank peers) (input_gradient M k input grad)))
               else Some (Inr (st1\<lparr>stage_outputs := (stage_outputs st)(mb := None)\<rparr>, w)))
         in if is_last_stage peers then finish (loss_gradient M output) w
            else case recv_from w (next_rank peers) me of
                None \<Rightarrow> None
              | Some (grad, w') \<Rightarrow> finish grad w')"

definition run_action ::
  "'x stage_model \<Rightarrow> nat \<Rightarrow> int \<Rightarrow> pipeline_peers \<Rightarrow> schedule_action \<Rightarrow> 'x stage_run \<times> 'x wires \<Rightarrow>
     ('x stage_run \<times> 'x wires) result option" where
  "run_action M k me peers a =
     (if act_op a = Forward then run_forward M k me peers (act_micro_batch a)
      else run_backward M k me peers (act_micro_batch a))"

definition stage_step ::
  "'x stage_model \<Rightarrow> nat \<Rightarrow> int \<Rightarrow> pipeline_peers \<Rightarrow> 'x stage_run \<times> 'x wires \<Rightarrow>
     ('x stage_run \<times> 'x wires) result option" where
  "stage_step M k me peers = (\<lambda>(st, w).
     case stage_program st of
       [] \<Rightarrow> None
     | a # as \<Rightarrow> run_action M k me peers a (st\<lparr>stage_program := as\<rparr>, w))"


section \<open>All stages\<close>

text \<open>
  The ranks of one pipeline, \<open>rk k\<close> the rank of stage \<open>k\<close> and \<open>ps k\<close> its peers; a step of
  the system is a step of any stage.
\<close>

inductive pipeline_step ::
  "'x stage_model \<Rightarrow> nat \<Rightarrow> (nat \<Rightarrow> int) \<Rightarrow> (nat \<Rightarrow> pipeline_peers) \<Rightarrow>
     (nat \<Rightarrow> 'x stage_run) \<times> 'x wires \<Rightarrow> (nat \<Rightarrow> 'x stage_run) \<times> 'x wires \<Rightarrow> bool"
  for M P rk ps where
  stage: "k < P \<Longrightarrow> stage_step M k (rk k) (ps k) (sts k, w) = Some (Inr (st', w')) \<Longrightarrow>
    pipeline_step M P rk ps (sts, w) (sts(k := st'), w')"


inductive_simps pipeline_step_simps: "pipeline_step M P rk ps (sts, w) S'"


section \<open>The computation the pipeline stands for\<close>

text \<open>
  Sequential forward and backward passes: \<open>activation k\<close> is the input of stage \<open>k\<close>,
  \<open>gradient P d\<close> the gradient handed to stage \<open>P - 1 - d\<close>.
\<close>

fun activation :: "'x stage_model \<Rightarrow> nat \<Rightarrow> int \<Rightarrow> 'x" where
  "activation M 0 mb = token_embeddings M mb"
| "activation M (Suc k) mb = forward_range M k (activation M k mb)"





section \<open>The invariant\<close>










section \<open>Channels\<close>







section \<open>Steps of a stage\<close>







section \<open>Steps of the system\<close>












section \<open>The ranks of a pipeline\<close>





section \<open>Runs\<close>













end
