(* ===== verification/Bytes.thy ===== *)
theory Bytes
  imports Cxx_String
begin

text \<open>
  Byte buffers. A \<open>byte\<close> is an 8-bit word, an integer is stored little-endian (the layout of
  \<^verbatim>\<open>memcpy\<close> on the little-endian machines the code targets), a character by its code. A
  \<open>reader\<close> consumes a prefix of its input or throws. The locale \<open>codec\<close> is the contract of a
  pair of a writer and a reader: what was written is read back, whatever follows it, and a reader
  looks only at what it consumes. Both laws pass to counted lists, so a message is checked field
  by field.
\<close>

section \<open>Little-endian integers\<close>

type_synonym byte = "8 word"

primrec put_le :: "nat \<Rightarrow> nat \<Rightarrow> byte list" where
  "put_le 0 v = []"
| "put_le (Suc n) v = word_of_nat (v mod 256) # put_le n (v div 256)"

primrec get_le :: "byte list \<Rightarrow> nat" where
  "get_le [] = 0"
| "get_le (b # bs) = unat b + 256 * get_le bs"

lemma length_put_le [simp]: "length (put_le n v) = n"
  by (induction n arbitrary: v) simp_all

lemma unat_byte: "v < 256 \<Longrightarrow> unat (word_of_nat v :: byte) = v"
  by (simp add: unat_of_nat take_bit_eq_mod)

lemma get_put_le: "get_le (put_le n v) = v mod 256 ^ n"
proof (induction n arbitrary: v)
  case (Suc n)
  have "v mod 256 + 256 * (v div 256 mod 256 ^ n) = v mod (256 * 256 ^ n)"
    by (simp add: mod_mult2_eq)
  then show ?case by (simp add: Suc unat_byte)
qed simp

lemma get_le_less: "get_le bs < 256 ^ length bs"
proof (induction bs)
  case (Cons b bs)
  have "unat b < 256" using unsigned_less [of b] by simp
  then have "unat b + 256 * get_le bs < 256 * Suc (get_le bs)" by simp
  also have "\<dots> \<le> 256 * 256 ^ length bs" using Cons by (intro mult_left_mono) simp_all
  finally show ?case by simp
qed simp

lemma put_get_le: "put_le (length bs) (get_le bs) = bs"
proof (induction bs)
  case (Cons b bs)
  have "unat b < 256" using unsigned_less [of b] by simp
  then show ?case using Cons by simp
qed simp

definition put_u32 :: "32 word \<Rightarrow> byte list" where
  "put_u32 v = put_le 4 (unat v)"

definition put_u64 :: "64 word \<Rightarrow> byte list" where
  "put_u64 v = put_le 8 (unat v)"

definition get_u32 :: "byte list \<Rightarrow> 32 word" where
  "get_u32 bs = word_of_nat (get_le bs)"

definition get_u64 :: "byte list \<Rightarrow> 64 word" where
  "get_u64 bs = word_of_nat (get_le bs)"

lemma length_put_word [simp]: "length (put_u32 v) = 4" "length (put_u64 w) = 8"
  by (simp_all add: put_u32_def put_u64_def)

lemma get_put_u32 [simp]: "get_u32 (put_u32 v) = v"
proof -
  have "unat v < 256 ^ 4" using unsigned_less [of v] by simp
  then show ?thesis by (simp add: get_u32_def put_u32_def get_put_le)
qed

lemma get_put_u64 [simp]: "get_u64 (put_u64 v) = v"
proof -
  have "unat v < 256 ^ 8" using unsigned_less [of v] by simp
  then show ?thesis by (simp add: get_u64_def put_u64_def get_put_le)
qed

text \<open>The characters of a string as bytes.\<close>

definition byte_of_char :: "char \<Rightarrow> byte" where
  "byte_of_char c = word_of_nat (of_char c)"

definition char_of_byte :: "byte \<Rightarrow> char" where
  "char_of_byte b = char_of (unat b)"

lemma char_of_byte_of_char [simp]: "char_of_byte (byte_of_char c) = c"
proof -
  have "(of_char c :: nat) < 256" by (rule nat_of_char_less_256)
  then show ?thesis by (simp add: char_of_byte_def byte_of_char_def unat_byte)
qed

lemma byte_of_char_of_byte [simp]: "byte_of_char (char_of_byte b) = b"
proof -
  have "unat b < 256" using unsigned_less [of b] by simp
  then show ?thesis by (simp add: char_of_byte_def byte_of_char_def of_char_of)
qed

lemma map_char_of_byte [simp]: "map char_of_byte (map byte_of_char s) = s"
  by (simp add: o_def)

section \<open>Readers\<close>

type_synonym 'a reader = "byte list \<Rightarrow> ('a \<times> byte list) result"

definition read_return :: "'a \<Rightarrow> 'a reader" where
  "read_return x bs = Inr (x, bs)"

definition read_then :: "'a reader \<Rightarrow> ('a \<Rightarrow> 'b reader) \<Rightarrow> 'b reader" where
  "read_then r f bs = and_then (r bs) (\<lambda>(x, bs'). f x bs')"

fun read_times :: "nat \<Rightarrow> 'a reader \<Rightarrow> 'a list reader" where
  "read_times 0 r = read_return []"
| "read_times (Suc n) r = read_then r (\<lambda>x. read_then (read_times n r) (\<lambda>xs. read_return (x # xs)))"

text \<open>A reader depends only on the bytes it consumes.\<close>

definition local_reader :: "'a reader \<Rightarrow> bool" where
  "local_reader r \<longleftrightarrow>
     (\<forall>bs x bs'. r bs = Inr (x, bs') \<longrightarrow>
        (\<exists>used. bs = used @ bs' \<and> (\<forall>more. r (used @ more) = Inr (x, more))))"

lemma local_return [intro, simp]: "local_reader (read_return x)"
  by (auto simp: local_reader_def read_return_def)

lemma local_then [intro]:
  assumes "local_reader r" "\<And>x. local_reader (f x)"
  shows "local_reader (read_then r f)"
  unfolding local_reader_def
proof (intro allI impI)
  fix bs y bs'
  assume "read_then r f bs = Inr (y, bs')"
  then obtain x bs1 where x: "r bs = Inr (x, bs1)" and y: "f x bs1 = Inr (y, bs')"
    by (auto simp: read_then_def result_simps)
  from x assms(1) obtain u1 where u1: "bs = u1 @ bs1" "\<And>more. r (u1 @ more) = Inr (x, more)"
    unfolding local_reader_def by blast
  from y assms(2) [of x] obtain u2 where u2: "bs1 = u2 @ bs'" "\<And>more. f x (u2 @ more) = Inr (y, more)"
    unfolding local_reader_def by blast
  show "\<exists>used. bs = used @ bs' \<and> (\<forall>more. read_then r f (used @ more) = Inr (y, more))"
    by (rule exI [of _ "u1 @ u2"]) (simp add: u1 u2 read_then_def)
qed

lemma local_times [intro]: "local_reader r \<Longrightarrow> local_reader (read_times n r)"
  by (induction n) (auto intro!: local_then)

lemma read_then_Inr [simp]: "r bs = Inr (x, bs') \<Longrightarrow> read_then r f bs = f x bs'"
  by (simp add: read_then_def)

lemma read_return_apply [simp]: "read_return x bs = Inr (x, bs)"
  by (simp add: read_return_def)

section \<open>Codecs\<close>

locale codec =
  fixes enc :: "'a \<Rightarrow> byte list" and dec :: "'a reader" and ok :: "'a \<Rightarrow> bool"
  assumes read_back: "ok x \<Longrightarrow> dec (enc x @ more) = Inr (x, more)"
    and local: "local_reader dec"
begin

lemma read_back_alone: "ok x \<Longrightarrow> dec (enc x) = Inr (x, [])"
  using read_back [of x "[]"] by simp

lemma encoding_inj:
  assumes "ok x" "ok y" and eq: "enc x = enc y"
  shows "x = y"
  using read_back_alone [OF assms(1)] unfolding eq read_back_alone [OF assms(2)] by simp

text \<open>A message cut short is never accepted.\<close>

lemma truncated:
  assumes "ok x" "n < length (enc x)"
  shows "\<exists>e. dec (take n (enc x)) = Inl e"
proof (cases "dec (take n (enc x))")
  case (Inr p)
  obtain y bs' where p: "p = (y, bs')" by (cases p)
  with Inr local obtain used where u: "take n (enc x) = used @ bs'"
    and d: "\<And>more. dec (used @ more) = Inr (y, more)"
    unfolding local_reader_def by blast
  have "enc x = used @ (bs' @ drop n (enc x))"
    using u by (metis append.assoc append_take_drop_id)
  then have "Inr (x, []) = (Inr (y, bs' @ drop n (enc x)) :: ('a \<times> byte list) result)"
    using d read_back_alone [OF assms(1)] by metis
  then show ?thesis using assms(2) by simp
qed blast

lemma read_times_back:
  assumes "\<And>x. x \<in> set xs \<Longrightarrow> ok x"
  shows "read_times (length xs) dec (concat (map enc xs) @ more) = Inr (xs, more)"
  using assms
proof (induction xs)
  case (Cons x xs)
  have "dec (enc x @ (concat (map enc xs) @ more)) = Inr (x, concat (map enc xs) @ more)"
    using Cons.prems by (intro read_back) simp
  then show ?case using Cons by simp
qed simp

end

end
