(* ===== verification/Transport.thy ===== *)
theory Transport
  imports Bytes
begin

text \<open>
  The text rollout interface of \<^verbatim>\<open>include/cverl/rollout/transport.h\<close> and its in-process
  implementation \<^verbatim>\<open>src/rollout/transport.cc\<close>. Integers keep their width, a
  \<^verbatim>\<open>float\<close> or \<^verbatim>\<open>double\<close> is its bit pattern (the transports only copy them), a
  \<^verbatim>\<open>std::map\<close> is its list of entries in key order.
\<close>

record rollout_request =
  req_prompts :: "string list"
  req_prompt_token_ids :: "32 word list list"
  req_n :: "32 word"
  req_max_tokens :: "32 word"
  req_temperature :: "64 word"
  req_top_p :: "64 word"
  req_top_k :: "32 word"
  req_stop :: "string list"
  req_return_token_ids :: bool
  req_return_logprobs :: bool
  req_seed :: "64 word"
  req_model :: string
  req_extra_params :: "(string \<times> string) list"
  req_request_id :: "64 word"

record rollout_sequence =
  seq_prompt_index :: "32 word"
  seq_sample_index :: "32 word"
  seq_text :: string
  seq_token_ids :: "32 word list"
  seq_logprobs :: "32 word list"
  seq_finish_reason :: string

record rollout_response =
  resp_request_id :: "64 word"
  resp_sequences :: "rollout_sequence list"
  resp_metrics :: "(string \<times> string) list"

section \<open>The loopback transport\<close>

record loopback_options =
  completion_suffix :: string
  synthesize_token_ids :: bool

unbundle bit_operations_syntax

definition fnv1a64 :: "string \<Rightarrow> 64 word \<Rightarrow> 64 word" where
  "fnv1a64 text seed =
     fold (\<lambda>ch hash. (hash XOR ucast (byte_of_char ch)) * 1099511628211) text (1469598103934665603 XOR seed)"

definition xorshift :: "64 word \<Rightarrow> 64 word" where
  "xorshift s0 =
     (let s1 = s0 XOR drop_bit 12 s0;
          s2 = s1 XOR push_bit 25 s1
      in s2 XOR drop_bit 27 s2)"

fun synthesize :: "nat \<Rightarrow> 64 word \<Rightarrow> 32 word list" where
  "synthesize 0 state = []"
| "synthesize (Suc k) state =
     (let state' = xorshift state in ucast (state' AND 0x7FFFFFFF) # synthesize k state')"

definition loopback_sequence ::
  "loopback_options \<Rightarrow> rollout_request \<Rightarrow> nat \<Rightarrow> nat \<Rightarrow> rollout_sequence" where
  "loopback_sequence opts req p s =
     (let text = req_prompts req ! p @ completion_suffix opts;
          ids = (if synthesize_token_ids opts \<or> req_return_token_ids req
                 then synthesize (min (unat (req_max_tokens req)) (length text + 1))
                   (fnv1a64 text (req_seed req + word_of_nat s))
                 else [])
      in \<lparr> seq_prompt_index = word_of_nat p, seq_sample_index = word_of_nat s, seq_text = text,
           seq_token_ids = ids, seq_logprobs = [], seq_finish_reason = ''stop'' \<rparr>)"

definition loopback_generate :: "loopback_options \<Rightarrow> rollout_request \<Rightarrow> rollout_response" where
  "loopback_generate opts req =
     \<lparr> resp_request_id = req_request_id req,
       resp_sequences = concat (map (\<lambda>p. map (loopback_sequence opts req p) [0..<unat (req_n req)])
         [0..<length (req_prompts req)]),
       resp_metrics = [] \<rparr>"

lemma length_synthesize [simp]: "length (synthesize k st) = k"
  by (induction k arbitrary: st) (simp_all add: Let_def)

lemma synthesize_range: "t \<in> set (synthesize k st) \<Longrightarrow> unat t < 2 ^ 31"
proof (induction k arbitrary: st)
  case (Suc k)
  have "unat (ucast (x AND 0x7FFFFFFF) :: 32 word) < 2 ^ 31" for x :: "64 word"
  proof -
    have "x AND 0x7FFFFFFF = take_bit 31 x"
      by (simp add: take_bit_eq_mask mask_eq_exp_minus_1)
    then have "unat (x AND 0x7FFFFFFF) < 2 ^ 31"
      using take_bit_nat_less_exp [of 31 "unat x"] by (simp add: unsigned_take_bit_eq)
    then show ?thesis
      by (metis (no_types, lifting) le_less_trans take_bit_nat_less_eq_self unsigned_ucast_eq)
  qed
  then show ?case using Suc by (auto simp: Let_def)
qed simp

lemma loopback_sequences:
  "resp_sequences (loopback_generate opts req) =
     map (\<lambda>k. loopback_sequence opts req (k div unat (req_n req)) (k mod unat (req_n req)))
       [0..<length (req_prompts req) * unat (req_n req)]"
  by (simp add: loopback_generate_def nested_loop)

text \<open>
  Claim C6. The loopback transport honours the contract of
  \<^verbatim>\<open>RolloutTransport::generate\<close>: one sequence per prompt and sample, in (prompt, sample)
  order, tagged with both indices, its text the prompt and the configured suffix; token ids, when
  asked for, are non-negative and no more than \<^verbatim>\<open>max_tokens\<close>.
\<close>

theorem loopback_generate_ordered:
  assumes "length (req_prompts req) \<le> 2 ^ 32" "k < length (req_prompts req) * unat (req_n req)"
  shows "resp_request_id (loopback_generate opts req) = req_request_id req \<and>
    length (resp_sequences (loopback_generate opts req)) = length (req_prompts req) * unat (req_n req) \<and>
    (let q = resp_sequences (loopback_generate opts req) ! k in
       unat (seq_prompt_index q) * unat (req_n req) + unat (seq_sample_index q) = k \<and>
       unat (seq_sample_index q) < unat (req_n req) \<and>
       seq_text q = req_prompts req ! unat (seq_prompt_index q) @ completion_suffix opts \<and>
       length (seq_token_ids q) \<le> unat (req_max_tokens req) \<and>
       (\<forall>t \<in> set (seq_token_ids q). unat t < 2 ^ 31) \<and>
       (\<not> synthesize_token_ids opts \<and> \<not> req_return_token_ids req \<longrightarrow> seq_token_ids q = []))"
proof -
  let ?n = "unat (req_n req)"
  have n: "0 < ?n" using assms(2) by (cases "?n = 0") auto
  have "k div ?n < length (req_prompts req)"
    using assms(2) by (simp add: less_mult_imp_div_less)
  then have 1: "unat (word_of_nat (k div ?n) :: 32 word) = k div ?n"
    using assms(1) by (simp add: unat_of_nat take_bit_nat_eq_self)
  have lt: "k mod ?n < ?n" using n by simp
  also have "?n < 2 ^ 32" using unsigned_less [of "req_n req"] by simp
  finally have 2: "unat (word_of_nat (k mod ?n) :: 32 word) = k mod ?n"
    by (simp add: unat_of_nat take_bit_nat_eq_self)
  have q: "resp_sequences (loopback_generate opts req) ! k = loopback_sequence opts req (k div ?n) (k mod ?n)"
    using assms(2) by (simp add: loopback_sequences)
  show ?thesis
    using lt unfolding q
    by (auto simp: loopback_sequences loopback_sequence_def Let_def 1 2 loopback_generate_def
        nested_loop dest: synthesize_range split: if_splits)
qed

theorem loopback_generate_ordered_witness:
  "seq_text (resp_sequences (loopback_generate
     \<lparr> completion_suffix = ''!'', synthesize_token_ids = True \<rparr>
     \<lparr> req_prompts = [''a'', ''b''], req_prompt_token_ids = [], req_n = 2, req_max_tokens = 1,
       req_temperature = 0, req_top_p = 0, req_top_k = 0, req_stop = [], req_return_token_ids = False,
       req_return_logprobs = False, req_seed = 0, req_model = [], req_extra_params = [],
       req_request_id = 7 \<rparr>) ! 3) = ''b!''"
proof -
  let ?req = "\<lparr> req_prompts = [''a'', ''b''], req_prompt_token_ids = [], req_n = 2, req_max_tokens = 1,
       req_temperature = 0, req_top_p = 0, req_top_k = 0, req_stop = [], req_return_token_ids = False,
       req_return_logprobs = False, req_seed = 0, req_model = [], req_extra_params = [],
       req_request_id = 7 \<rparr> :: rollout_request"
  let ?o = "\<lparr> completion_suffix = ''!'', synthesize_token_ids = True \<rparr>"
  let ?q = "resp_sequences (loopback_generate ?o ?req) ! 3"
  have k: "unat (seq_prompt_index ?q) * 2 + unat (seq_sample_index ?q) = 3" "unat (seq_sample_index ?q) < 2"
    and t: "seq_text ?q = req_prompts ?req ! unat (seq_prompt_index ?q) @ ''!''"
    using loopback_generate_ordered [of ?req 3 ?o] by (simp_all add: Let_def)
  then have "unat (seq_prompt_index ?q) = 1" by linarith
  with t show ?thesis by simp
qed

end
