(* ===== verification/Wire_Format.thy ===== *)
theory Wire_Format
  imports Transport
begin

text \<open>
  The message format of \<^verbatim>\<open>src/rollout/shared_memory_transport.cc\<close>: the classes
  \<^verbatim>\<open>Writer\<close> and \<^verbatim>\<open>Reader\<close>, and the serialisation of requests and
  responses. A serialiser is the list of its \<^verbatim>\<open>memcpy\<close> writes, run against the capacity
  of the buffer by \<open>run_writer\<close>. Each field's pair of writer and reader is an instance of the
  contract \<open>codec\<close>, and so are, by composition, whole messages.
\<close>

section \<open>Writer\<close>

definition write_u32 :: "32 word \<Rightarrow> byte list list" where
  "write_u32 v = [put_u32 v]"

definition write_u64 :: "64 word \<Rightarrow> byte list list" where
  "write_u64 v = [put_u64 v]"

definition write_string :: "string \<Rightarrow> byte list list" where
  "write_string s = write_u32 (word_of_nat (length s)) @ [map byte_of_char s]"

definition write_vec32 :: "32 word list \<Rightarrow> byte list list" where
  "write_vec32 v = write_u32 (word_of_nat (length v)) @ [concat (map put_u32 v)]"

text \<open>A count, then the elements.\<close>

definition write_counted :: "('a \<Rightarrow> byte list list) \<Rightarrow> 'a list \<Rightarrow> byte list list" where
  "write_counted w xs = write_u32 (word_of_nat (length xs)) @ concat (map w xs)"

definition write_entry :: "string \<times> string \<Rightarrow> byte list list" where
  "write_entry kv = write_string (fst kv) @ write_string (snd kv)"

definition capacity_error :: cpp_error where
  "capacity_error = RuntimeError ''shared memory transport: payload exceeds capacity''"

text \<open>The bytes that reached the buffer, and the exception if a write did not fit.\<close>

fun run_writer :: "nat \<Rightarrow> byte list list \<Rightarrow> byte list \<Rightarrow> byte list \<times> cpp_error option" where
  "run_writer cap [] out = (out, None)"
| "run_writer cap (c # cs) out =
     (if length out + length c > cap then (out, Some capacity_error) else run_writer cap cs (out @ c))"

section \<open>Reader\<close>

definition short_read :: cpp_error where
  "short_read = RuntimeError ''shared memory transport: short read''"

definition read_bytes :: "nat \<Rightarrow> byte list reader" where
  "read_bytes n bs = (if n > length bs then Inl short_read else Inr (take n bs, drop n bs))"

definition read_u32 :: "32 word reader" where
  "read_u32 = read_then (read_bytes 4) (\<lambda>bs. read_return (get_u32 bs))"

definition read_u64 :: "64 word reader" where
  "read_u64 = read_then (read_bytes 8) (\<lambda>bs. read_return (get_u64 bs))"

definition read_string :: "string reader" where
  "read_string = read_then read_u32 (\<lambda>n. read_then (read_bytes (unat n)) (\<lambda>bs. read_return (map char_of_byte bs)))"

fun words32 :: "nat \<Rightarrow> byte list \<Rightarrow> 32 word list" where
  "words32 0 bs = []"
| "words32 (Suc n) bs = get_u32 (take 4 bs) # words32 n (drop 4 bs)"

definition read_vec32 :: "32 word list reader" where
  "read_vec32 = read_then read_u32 (\<lambda>n. read_then (read_bytes (unat n * 4)) (\<lambda>bs. read_return (words32 (unat n) bs)))"

definition read_counted :: "'a reader \<Rightarrow> 'a list reader" where
  "read_counted r = read_then read_u32 (\<lambda>n. read_times (unat n) r)"

definition read_entry :: "(string \<times> string) reader" where
  "read_entry = read_then read_string (\<lambda>k. read_then read_string (\<lambda>v. read_return (k, v)))"

definition read_map :: "(string \<times> string) list reader" where
  "read_map = read_then (read_counted read_entry)
     (\<lambda>kvs. read_return (fold (\<lambda>(k, v) m. map_emplace k v m) kvs []))"

section \<open>Messages\<close>

definition request_flags :: "rollout_request \<Rightarrow> 32 word" where
  "request_flags req = (if req_return_token_ids req then 1 else 0) OR (if req_return_logprobs req then 2 else 0)"

definition request_writes :: "rollout_request \<Rightarrow> byte list list" where
  "request_writes req =
     write_u64 (req_request_id req) @ write_u32 (req_n req) @ write_u32 (req_max_tokens req) @
     write_u64 (req_temperature req) @ write_u64 (req_top_p req) @ write_u32 (req_top_k req) @
     write_u64 (req_seed req) @ write_u32 (request_flags req) @
     write_string (req_model req) @ write_counted write_string (req_prompts req) @
     write_counted write_vec32 (req_prompt_token_ids req) @
     write_counted write_string (req_stop req) @ write_counted write_entry (req_extra_params req)"

definition serialize_request :: "nat \<Rightarrow> rollout_request \<Rightarrow> byte list \<times> cpp_error option" where
  "serialize_request cap req = run_writer cap (request_writes req) []"

definition read_request :: "rollout_request reader" where
  "read_request =
     read_then read_u64 (\<lambda>id. read_then read_u32 (\<lambda>n. read_then read_u32 (\<lambda>max_tokens.
     read_then read_u64 (\<lambda>temperature. read_then read_u64 (\<lambda>top_p. read_then read_u32 (\<lambda>top_k.
     read_then read_u64 (\<lambda>seed. read_then read_u32 (\<lambda>flags.
     read_then read_string (\<lambda>model. read_then (read_counted read_string) (\<lambda>prompts.
     read_then (read_counted read_vec32) (\<lambda>ids. read_then (read_counted read_string) (\<lambda>stop.
     read_then read_map (\<lambda>extra. read_return
       \<lparr> req_prompts = prompts, req_prompt_token_ids = ids, req_n = n, req_max_tokens = max_tokens,
         req_temperature = temperature, req_top_p = top_p, req_top_k = top_k, req_stop = stop,
         req_return_token_ids = (flags AND 1 \<noteq> 0), req_return_logprobs = (flags AND 2 \<noteq> 0),
         req_seed = seed, req_model = model, req_extra_params = extra, req_request_id = id \<rparr>)))))))))))))"

definition deserialize_request :: "byte list \<Rightarrow> rollout_request result" where
  "deserialize_request bs = and_then (read_request bs) (\<lambda>(req, _). Inr req)"

definition write_sequence :: "rollout_sequence \<Rightarrow> byte list list" where
  "write_sequence q =
     write_u32 (seq_prompt_index q) @ write_u32 (seq_sample_index q) @ write_string (seq_text q) @
     write_vec32 (seq_token_ids q) @ write_vec32 (seq_logprobs q) @ write_string (seq_finish_reason q)"

definition response_writes :: "rollout_response \<Rightarrow> byte list list" where
  "response_writes resp =
     write_u64 (resp_request_id resp) @ write_counted write_sequence (resp_sequences resp) @
     write_counted write_entry (resp_metrics resp)"

definition serialize_response :: "nat \<Rightarrow> rollout_response \<Rightarrow> byte list \<times> cpp_error option" where
  "serialize_response cap resp = run_writer cap (response_writes resp) []"

definition read_sequence :: "rollout_sequence reader" where
  "read_sequence =
     read_then read_u32 (\<lambda>p. read_then read_u32 (\<lambda>s. read_then read_string (\<lambda>text.
     read_then read_vec32 (\<lambda>ids. read_then read_vec32 (\<lambda>lps. read_then read_string (\<lambda>fin. read_return
       \<lparr> seq_prompt_index = p, seq_sample_index = s, seq_text = text, seq_token_ids = ids,
         seq_logprobs = lps, seq_finish_reason = fin \<rparr>))))))"

definition read_response :: "rollout_response reader" where
  "read_response =
     read_then read_u64 (\<lambda>id. read_then (read_counted read_sequence) (\<lambda>seqs.
     read_then read_map (\<lambda>metrics. read_return
       \<lparr> resp_request_id = id, resp_sequences = seqs, resp_metrics = metrics \<rparr>)))"

definition deserialize_response :: "byte list \<Rightarrow> rollout_response result" where
  "deserialize_response bs = and_then (read_response bs) (\<lambda>(resp, _). Inr resp)"

section \<open>The writer against its capacity\<close>

lemma run_writer_fits:
  assumes "length out + length (concat cs) \<le> cap"
  shows "run_writer cap cs out = (out @ concat cs, None)"
  using assms by (induction cs arbitrary: out) auto

lemma run_writer_None:
  assumes "run_writer cap cs out = (bs, None)" "length out \<le> cap"
  shows "bs = out @ concat cs" "length bs \<le> cap"
  using assms by (induction cs arbitrary: out) (fastforce split: if_splits)+

lemma run_writer_bound:
  assumes "run_writer cap cs out = (bs, r)" "length out \<le> cap"
  shows "length bs \<le> cap" "r = None \<or> r = Some capacity_error"
  using assms by (induction cs arbitrary: out) (auto split: if_splits)

section \<open>Leaf codecs\<close>

lemma local_bytes [intro, simp]: "local_reader (read_bytes n)"
  unfolding local_reader_def
proof (intro allI impI)
  fix bs x bs'
  assume "read_bytes n bs = Inr (x, bs')"
  then have "n \<le> length bs" "x = take n bs" "bs' = drop n bs"
    by (auto simp: read_bytes_def split: if_splits)
  then show "\<exists>used. bs = used @ bs' \<and> (\<forall>tail. read_bytes n (used @ tail) = Inr (x, tail))"
    by (intro exI [of _ "take n bs"]) (simp add: read_bytes_def)
qed

lemma local_leaves [intro, simp]:
  "local_reader read_u32" "local_reader read_u64" "local_reader read_string"
  "local_reader read_vec32" "local_reader read_entry"
  by (auto simp: read_u32_def read_u64_def read_string_def read_vec32_def read_entry_def intro!: local_then)

lemma local_counted [intro, simp]: "local_reader r \<Longrightarrow> local_reader (read_counted r)"
  by (auto simp: read_counted_def intro!: local_then)

lemma local_map [intro, simp]: "local_reader read_map"
  by (auto simp: read_map_def intro!: local_then)

lemma read_bytes_append [simp]: "length bs = n \<Longrightarrow> read_bytes n (bs @ tail) = Inr (bs, tail)"
  by (simp add: read_bytes_def)

lemma words32_concat [simp]: "words32 (length v) (concat (map put_u32 v)) = v"
  by (induction v) simp_all

lemma length_concat_put_u32 [simp]: "length (concat (map put_u32 v)) = 4 * length v"
  by (induction v) simp_all

lemma unat_length: "length xs < 2 ^ 32 \<Longrightarrow> unat (word_of_nat (length xs) :: 32 word) = length xs"
  by (simp add: unat_of_nat take_bit_nat_eq_self)

definition short :: "'a list \<Rightarrow> bool" where
  "short xs \<longleftrightarrow> length xs < 2 ^ 32"

lemma unat_short: "short xs \<Longrightarrow> unat (word_of_nat (length xs) :: 32 word) = length xs"
  by (simp add: short_def unat_length)

interpretation u32: codec put_u32 read_u32 "\<lambda>_. True"
  by unfold_locales (simp add: read_u32_def, rule local_leaves)

interpretation u64: codec put_u64 read_u64 "\<lambda>_. True"
  by unfold_locales (simp add: read_u64_def, rule local_leaves)

interpretation str: codec "\<lambda>s. concat (write_string s)" read_string short
proof
  fix s :: string and tail
  assume "short s"
  then show "read_string (concat (write_string s) @ tail) = Inr (s, tail)"
    using u32.read_back [of "word_of_nat (length s)"]
    by (simp add: write_string_def write_u32_def read_string_def unat_short map_char_of_byte [unfolded map_map])
qed simp

interpretation vec: codec "\<lambda>v. concat (write_vec32 v)" read_vec32 short
proof
  fix v :: "32 word list" and tail
  assume "short v"
  then show "read_vec32 (concat (write_vec32 v) @ tail) = Inr (v, tail)"
    using u32.read_back [of "word_of_nat (length v)"]
    by (simp add: write_vec32_def write_u32_def read_vec32_def unat_short mult.commute)
qed simp

interpretation entry: codec "\<lambda>kv. concat (write_entry kv)" read_entry "\<lambda>kv. short (fst kv) \<and> short (snd kv)"
  by unfold_locales (auto simp: write_entry_def read_entry_def str.read_back)

context codec
begin

text \<open>A counted list of encoded elements.\<close>

lemma counted_back:
  assumes "short xs" "\<And>x. x \<in> set xs \<Longrightarrow> ok x"
  shows "read_counted dec (put_u32 (word_of_nat (length xs)) @ concat (map enc xs) @ tail) = Inr (xs, tail)"
  using read_times_back [OF assms(2)] u32.read_back [of "word_of_nat (length xs)"]
  by (simp add: read_counted_def unat_short [OF assms(1)])

lemma counted_codec:
  "codec (\<lambda>xs. put_u32 (word_of_nat (length xs)) @ concat (map enc xs)) (read_counted dec)
     (\<lambda>xs. short xs \<and> (\<forall>x \<in> set xs. ok x))"
  by unfold_locales (auto simp: counted_back local)

end

lemma concat_write_counted: "concat (write_counted w xs) =
    put_u32 (word_of_nat (length xs)) @ concat (map (\<lambda>x. concat (w x)) xs)"
  by (induction xs) (simp_all add: write_counted_def write_u32_def)

lemma codec_counted:
  assumes "codec (\<lambda>x. concat (w x)) r ok"
  shows "codec (\<lambda>xs. concat (write_counted w xs)) (read_counted r) (\<lambda>xs. short xs \<and> (\<forall>x \<in> set xs. ok x))"
  using codec.counted_codec [OF assms] by (simp add: concat_write_counted)

interpretation strings: codec "\<lambda>ss. concat (write_counted write_string ss)" "read_counted read_string"
    "\<lambda>ss. short ss \<and> (\<forall>s \<in> set ss. short s)"
  by (rule codec_counted) unfold_locales

interpretation vecs: codec "\<lambda>vs. concat (write_counted write_vec32 vs)" "read_counted read_vec32"
    "\<lambda>vs. short vs \<and> (\<forall>v \<in> set vs. short v)"
  by (rule codec_counted) unfold_locales

interpretation entries: codec "\<lambda>m. concat (write_counted write_entry m)" "read_counted read_entry"
    "\<lambda>m. short m \<and> (\<forall>kv \<in> set m. short (fst kv) \<and> short (snd kv))"
  by (rule codec_counted) unfold_locales

lemma emplace_all: "map_ordered (m @ kvs) \<Longrightarrow> fold (\<lambda>(k, v) m. map_emplace k v m) kvs m = m @ kvs"
proof (induction kvs arbitrary: m)
  case (Cons kv kvs)
  obtain k v where kv: "kv = (k, v)" by fastforce
  have "map_emplace k v m = m @ [(k, v)]"
    using Cons.prems map_ordered_prefix [of "m @ [(k, v)]" kvs]
    by (intro map_emplace_last) (simp add: kv)
  then show ?case using Cons.IH [of "m @ [(k, v)]"] Cons.prems by (simp add: kv)
qed simp

text \<open>A \<^verbatim>\<open>std::map\<close> is written in key order and read by \<^verbatim>\<open>emplace\<close>.\<close>

definition short_map :: "(string \<times> string) list \<Rightarrow> bool" where
  "short_map m \<longleftrightarrow> short m \<and> (\<forall>kv \<in> set m. short (fst kv) \<and> short (snd kv)) \<and> map_ordered m"

interpretation omap: codec "\<lambda>m. concat (write_counted write_entry m)" read_map short_map
proof
  fix m and tail
  assume "short_map m"
  then show "read_map (concat (write_counted write_entry m) @ tail) = Inr (m, tail)"
    using entries.read_back [of m tail] emplace_all [of "[]" m] by (simp add: read_map_def short_map_def)
qed simp

definition short_sequence :: "rollout_sequence \<Rightarrow> bool" where
  "short_sequence q \<longleftrightarrow>
     short (seq_text q) \<and> short (seq_token_ids q) \<and> short (seq_logprobs q) \<and> short (seq_finish_reason q)"

definition short_request :: "rollout_request \<Rightarrow> bool" where
  "short_request req \<longleftrightarrow>
     short (req_model req) \<and> short (req_prompts req) \<and> (\<forall>s \<in> set (req_prompts req). short s) \<and>
     short (req_prompt_token_ids req) \<and> (\<forall>v \<in> set (req_prompt_token_ids req). short v) \<and>
     short (req_stop req) \<and> (\<forall>s \<in> set (req_stop req). short s) \<and> short_map (req_extra_params req)"

definition short_response :: "rollout_response \<Rightarrow> bool" where
  "short_response resp \<longleftrightarrow>
     short (resp_sequences resp) \<and> (\<forall>q \<in> set (resp_sequences resp). short_sequence q) \<and>
     short_map (resp_metrics resp)"

lemmas read_backs = u32.read_back u64.read_back str.read_back vec.read_back strings.read_back
  vecs.read_back omap.read_back

lemma concat_write_leaf [simp]: "concat (write_u32 v) = put_u32 v" "concat (write_u64 w) = put_u64 w"
  by (simp_all add: write_u32_def write_u64_def)

interpretation sequence: codec "\<lambda>q. concat (write_sequence q)" read_sequence short_sequence
proof
  fix q :: rollout_sequence and tail
  assume "short_sequence q"
  then show "read_sequence (concat (write_sequence q) @ tail) = Inr (q, tail)"
    by (simp add: read_sequence_def write_sequence_def short_sequence_def read_backs)
next
  show "local_reader read_sequence"
    unfolding read_sequence_def by (intro local_then local_leaves local_return)
qed

interpretation sequences: codec "\<lambda>qs. concat (write_counted write_sequence qs)" "read_counted read_sequence"
    "\<lambda>qs. short qs \<and> (\<forall>q \<in> set qs. short_sequence q)"
  by (rule codec_counted) unfold_locales

lemma request_flags_bits:
  "request_flags req AND 1 \<noteq> 0 \<longleftrightarrow> req_return_token_ids req"
  "request_flags req AND 2 \<noteq> 0 \<longleftrightarrow> req_return_logprobs req"
  by (simp_all add: request_flags_def)

interpretation request: codec "\<lambda>req. concat (request_writes req)" read_request short_request
proof
  fix req :: rollout_request and tail
  assume "short_request req"
  then show "read_request (concat (request_writes req) @ tail) = Inr (req, tail)"
    by (simp add: read_request_def request_writes_def short_request_def read_backs request_flags_bits)
next
  show "local_reader read_request"
    unfolding read_request_def by (intro local_then local_leaves local_return local_counted local_map)
qed

interpretation response: codec "\<lambda>resp. concat (response_writes resp)" read_response short_response
proof
  fix resp :: rollout_response and tail
  assume "short_response resp"
  then show "read_response (concat (response_writes resp) @ tail) = Inr (resp, tail)"
    by (simp add: read_response_def response_writes_def short_response_def read_backs sequences.read_back)
next
  show "local_reader read_response"
    unfolding read_response_def
    by (intro local_then local_leaves local_return local_counted local_map sequence.local)
qed

section \<open>What fits the buffer is short\<close>

lemma length_concat_ge: "x \<in> set xs \<Longrightarrow> length (f x) \<le> length (concat (map f xs))"
  by (simp add: length_concat o_def member_le_sum_list)

lemma length_le_concat:
  "(\<And>x. x \<in> set xs \<Longrightarrow> 0 < length (f x)) \<Longrightarrow> length xs \<le> length (concat (map f xs))"
proof (induction xs)
  case (Cons x xs)
  have "0 < length (f x)" "length xs \<le> length (concat (map f xs))"
    using Cons by (auto intro!: Cons.IH)
  then show ?case by (cases "f x") simp_all
qed simp

lemma length_writes:
  "length (concat (write_string s)) = 4 + length s"
  "length (concat (write_vec32 v)) = 4 + 4 * length v"
  "length (concat (write_entry kv)) = 8 + length (fst kv) + length (snd kv)"
  by (simp_all add: write_string_def write_vec32_def write_entry_def)

lemma short_counted:
  assumes "length (concat (write_counted w xs)) < 2 ^ 32" "\<And>x. 0 < length (concat (w x))"
  shows "short xs" "x \<in> set xs \<Longrightarrow> length (concat (w x)) < 2 ^ 32"
  using assms length_le_concat [of xs "\<lambda>x. concat (w x)"] length_concat_ge [of x xs "\<lambda>x. concat (w x)"]
  by (auto simp: short_def concat_write_counted)

lemma counted_pos: "0 < length (concat (write_counted w xs))"
  by (simp add: concat_write_counted)

lemma short_of_writes:
  "length (concat (write_string s)) < 2 ^ 32 \<Longrightarrow> short s"
  "length (concat (write_vec32 v)) < 2 ^ 32 \<Longrightarrow> short v"
  "length (concat (write_entry kv)) < 2 ^ 32 \<Longrightarrow> short (fst kv) \<and> short (snd kv)"
  "length (concat (write_sequence q)) < 2 ^ 32 \<Longrightarrow> short_sequence q"
  by (simp_all add: length_writes short_def short_sequence_def write_sequence_def)

lemma writes_pos:
  "0 < length (concat (write_string s))" "0 < length (concat (write_vec32 v))"
  "0 < length (concat (write_entry kv))" "0 < length (concat (write_sequence q))"
  by (simp_all only: length_writes write_sequence_def concat_append length_append concat_write_leaf
      length_put_word add_gr_0 zero_less_numeral simp_thms)

lemma short_strings:
  assumes "length (concat (write_counted write_string ss)) < 2 ^ 32"
  shows "short ss \<and> (\<forall>s \<in> set ss. short s)"
  using short_counted [OF assms writes_pos(1)] short_of_writes(1) by blast

lemma short_vecs:
  assumes "length (concat (write_counted write_vec32 vs)) < 2 ^ 32"
  shows "short vs \<and> (\<forall>v \<in> set vs. short v)"
  using short_counted [OF assms writes_pos(2)] short_of_writes(2) by blast

lemma short_entries:
  assumes "length (concat (write_counted write_entry m)) < 2 ^ 32" "map_ordered m"
  shows "short_map m"
  using short_counted [OF assms(1) writes_pos(3)] short_of_writes(3) assms(2)
  unfolding short_map_def by blast

lemma short_sequences:
  assumes "length (concat (write_counted write_sequence qs)) < 2 ^ 32"
  shows "short qs \<and> (\<forall>q \<in> set qs. short_sequence q)"
  using short_counted [OF assms writes_pos(4)] short_of_writes(4) by blast

lemma request_fits_short:
  assumes "length (concat (request_writes req)) < 2 ^ 32" "map_ordered (req_extra_params req)"
  shows "short_request req"
proof -
  from assms(1) have "length (concat (write_string (req_model req))) < 2 ^ 32"
    "length (concat (write_counted write_string (req_prompts req))) < 2 ^ 32"
    "length (concat (write_counted write_vec32 (req_prompt_token_ids req))) < 2 ^ 32"
    "length (concat (write_counted write_string (req_stop req))) < 2 ^ 32"
    "length (concat (write_counted write_entry (req_extra_params req))) < 2 ^ 32"
    unfolding request_writes_def concat_append length_append by linarith+
  then show ?thesis
    using short_strings short_vecs short_entries assms(2)
    by (auto simp: short_request_def length_writes short_def)
qed

lemma response_fits_short:
  assumes "length (concat (response_writes resp)) < 2 ^ 32" "map_ordered (resp_metrics resp)"
  shows "short_response resp"
proof -
  from assms(1) have "length (concat (write_counted write_sequence (resp_sequences resp))) < 2 ^ 32"
    "length (concat (write_counted write_entry (resp_metrics resp))) < 2 ^ 32"
    unfolding response_writes_def concat_append length_append by linarith+
  then show ?thesis
    using short_sequences short_entries assms(2) by (auto simp: short_response_def)
qed

section \<open>Messages cross the buffer unchanged\<close>

lemma deserialize_serialized_request:
  assumes "serialize_request cap req = (bs, None)" "cap < 2 ^ 32" "map_ordered (req_extra_params req)"
  shows "bs = concat (request_writes req)" "short_request req" "length bs \<le> cap"
    "deserialize_request bs = Inr req"
proof -
  show bs: "bs = concat (request_writes req)" "length bs \<le> cap"
    using run_writer_None [of cap "request_writes req" "[]" bs] assms(1)
    by (simp_all add: serialize_request_def)
  then show s: "short_request req" using assms(2,3) by (intro request_fits_short) simp_all
  show "deserialize_request bs = Inr req"
    using request.read_back_alone [OF s] by (simp add: deserialize_request_def bs(1))
qed

lemma deserialize_serialized_response:
  assumes "serialize_response cap resp = (bs, None)" "cap < 2 ^ 32" "map_ordered (resp_metrics resp)"
  shows "bs = concat (response_writes resp)" "short_response resp" "length bs \<le> cap"
    "deserialize_response bs = Inr resp"
proof -
  show bs: "bs = concat (response_writes resp)" "length bs \<le> cap"
    using run_writer_None [of cap "response_writes resp" "[]" bs] assms(1)
    by (simp_all add: serialize_response_def)
  then show s: "short_response resp" using assms(2,3) by (intro response_fits_short) simp_all
  show "deserialize_response bs = Inr resp"
    using response.read_back_alone [OF s] by (simp add: deserialize_response_def bs(1))
qed

text \<open>
  Claim C7. If a request fits a buffer of less than 4 GiB, the server reads back exactly the
  request that was written; two requests with the same bytes are equal, and a message cut short
  anywhere is rejected, never taken for another request.
\<close>

theorem request_roundtrip:
  assumes "serialize_request cap req = (bs, None)" "cap < 2 ^ 32" "map_ordered (req_extra_params req)"
  shows "deserialize_request bs = Inr req \<and> length bs \<le> cap \<and>
    (\<forall>req'. serialize_request cap req' = (bs, None) \<and> map_ordered (req_extra_params req') \<longrightarrow> req' = req) \<and>
    (\<forall>n < length bs. \<exists>e. deserialize_request (take n bs) = Inl e)"
proof -
  note d = deserialize_serialized_request [OF assms]
  have "\<exists>e. deserialize_request (take n bs) = Inl e" if "n < length bs" for n
    using request.truncated [OF d(2), of n] that by (auto simp: deserialize_request_def d(1))
  moreover have "req' = req" if "serialize_request cap req' = (bs, None)" "map_ordered (req_extra_params req')" for req'
    using deserialize_serialized_request(4) [OF that(1) assms(2) that(2)] d(4) by simp
  ultimately show ?thesis using d by blast
qed

definition example_request :: rollout_request where
  "example_request = \<lparr> req_prompts = [''a''], req_prompt_token_ids = [[5, 6]], req_n = 2,
     req_max_tokens = 16, req_temperature = 0, req_top_p = 0, req_top_k = - 1, req_stop = [],
     req_return_token_ids = True, req_return_logprobs = False, req_seed = 3, req_model = ''m'',
     req_extra_params = [(''k'', ''v'')], req_request_id = 9 \<rparr>"

lemma example_request_length: "length (concat (request_writes example_request)) = 96"
  by (simp add: request_writes_def concat_write_counted length_writes example_request_def)

theorem request_roundtrip_witness:
  "\<exists>bs. serialize_request 4096 example_request = (bs, None) \<and> deserialize_request bs = Inr example_request"
proof -
  have "serialize_request 4096 example_request = (concat (request_writes example_request), None)"
    using run_writer_fits [of "[]" "request_writes example_request" 4096] example_request_length
    by (simp add: serialize_request_def)
  then show ?thesis
    using request_roundtrip [of 4096 example_request]
    by (simp add: example_request_def map_ordered_def)
qed

text \<open>
  Claim C8. The same for responses: sequences with their token ids, log-probabilities (bit for
  bit) and finish reasons, and the metrics map, arrive unchanged, and no truncated response is
  accepted.
\<close>

theorem response_roundtrip:
  assumes "serialize_response cap resp = (bs, None)" "cap < 2 ^ 32" "map_ordered (resp_metrics resp)"
  shows "deserialize_response bs = Inr resp \<and> length bs \<le> cap \<and>
    (\<forall>n < length bs. \<exists>e. deserialize_response (take n bs) = Inl e)"
proof -
  note d = deserialize_serialized_response [OF assms]
  have "\<exists>e. deserialize_response (take n bs) = Inl e" if "n < length bs" for n
    using response.truncated [OF d(2), of n] that by (auto simp: deserialize_response_def d(1))
  then show ?thesis using d by blast
qed

definition example_response :: rollout_response where
  "example_response = \<lparr> resp_request_id = 9, resp_sequences =
       [\<lparr> seq_prompt_index = 0, seq_sample_index = 1, seq_text = ''ab'', seq_token_ids = [7],
          seq_logprobs = [0xBF800000], seq_finish_reason = ''stop'' \<rparr>],
     resp_metrics = [(''a'', ''1''), (''b'', ''2'')] \<rparr>"

lemma example_response_length: "length (concat (response_writes example_response)) = 74"
  by (simp add: response_writes_def concat_write_counted write_sequence_def length_writes example_response_def)

theorem response_roundtrip_witness:
  "\<exists>bs. serialize_response 256 example_response = (bs, None) \<and> deserialize_response bs = Inr example_response"
proof -
  have "serialize_response 256 example_response = (concat (response_writes example_response), None)"
    using run_writer_fits [of "[]" "response_writes example_response" 256] example_response_length
    by (simp add: serialize_response_def)
  then show ?thesis
    using response_roundtrip [of 256 example_response]
    by (simp add: example_response_def map_ordered_def)
qed

end
