(* ===== verification/Shm_Transport.thy ===== *)
theory Shm_Transport
  imports Wire_Format
begin

text \<open>
  The shared-memory transport of \<^verbatim>\<open>src/rollout/shared_memory_transport.cc\<close> and the naming
  rules of \<^verbatim>\<open>src/rollout/shared_memory.cc\<close>. The region is a record of its header fields, its
  two payload buffers and the two semaphores as counters; \<open>generate\<close> is split at its wait, and
  \<open>serve_one\<close> at the point where the server stops reading the region, so that client and server
  interleave as they do in two processes. \<open>transport_step\<close> is the system of one client and one
  server.
\<close>

section \<open>Names, sizes and deadlines\<close>

definition normalize_name :: "string \<Rightarrow> string result" where
  "normalize_name name =
     (if name = [] then Inl (InvalidArgument ''shared memory name is required'')
      else Inr (if hd name = CHR ''/'' then name else ''/'' @ name))"

definition normalize_sem_name :: "string \<Rightarrow> string \<Rightarrow> string" where
  "normalize_sem_name base suffix =
     ''/'' @ (if base = [] \<or> hd base \<noteq> CHR ''/'' then base else tl base) @ suffix"

definition header_bytes :: nat where
  "header_bytes = 48"

definition shm_total_bytes :: "nat \<Rightarrow> nat" where
  "shm_total_bytes payload_capacity = header_bytes + 2 * payload_capacity"

definition timespec_add_ms :: "int \<times> int \<Rightarrow> int \<Rightarrow> int \<times> int" where
  "timespec_add_ms ts ms =
     (let sec = fst ts + ms sdiv 1000;
          nsec = snd ts + (ms smod 1000) * 1000000
      in if nsec \<ge> 1000000000 then (sec + nsec sdiv 1000000000, nsec smod 1000000000) else (sec, nsec))"

section \<open>The region\<close>

definition k_magic :: "32 word" where
  "k_magic = 0x43565354"

definition k_version :: "32 word" where
  "k_version = 1"

record shm_region =
  hdr_magic :: "32 word"
  hdr_version :: "32 word"
  hdr_payload_capacity :: nat
  hdr_request_size :: nat
  hdr_response_size :: nat
  hdr_request_id :: "64 word"
  hdr_response_status :: "32 word"
  request_buffer :: "byte list"
  response_buffer :: "byte list"
  req_sem :: nat
  resp_sem :: nat

record shm_options =
  opt_name :: string
  payload_capacity :: nat

record shm_endpoint =
  is_client :: bool
  ep_options :: shm_options
  next_request_id :: "64 word"

definition create_client :: "shm_options \<Rightarrow> (shm_endpoint \<times> shm_region) result" where
  "create_client opts =
     and_then (throw_if (opt_name opts = [])
       (InvalidArgument ''SharedMemoryRolloutTransport requires a name'')) (\<lambda>_.
     Inr (\<lparr> is_client = True, ep_options = opts, next_request_id = 1 \<rparr>,
       \<lparr> hdr_magic = k_magic, hdr_version = k_version, hdr_payload_capacity = payload_capacity opts,
         hdr_request_size = 0, hdr_response_size = 0, hdr_request_id = 0, hdr_response_status = 0,
         request_buffer = replicate (payload_capacity opts) 0,
         response_buffer = replicate (payload_capacity opts) 0, req_sem = 0, resp_sem = 0 \<rparr>))"

definition attach_server :: "shm_options \<Rightarrow> shm_region \<Rightarrow> shm_endpoint result" where
  "attach_server opts reg =
     and_then (throw_if (opt_name opts = [])
       (InvalidArgument ''SharedMemoryRolloutTransport requires a name'')) (\<lambda>_.
     and_then (throw_if (hdr_magic reg \<noteq> k_magic)
       (RuntimeError ''SharedMemoryRolloutTransport: bad magic in shared region'')) (\<lambda>_.
     and_then (throw_if (hdr_version reg \<noteq> k_version)
       (RuntimeError ''SharedMemoryRolloutTransport: version mismatch'')) (\<lambda>_.
     and_then (throw_if (hdr_payload_capacity reg \<noteq> payload_capacity opts)
       (RuntimeError ''SharedMemoryRolloutTransport: payload capacity mismatch'')) (\<lambda>_.
     Inr \<lparr> is_client = False, ep_options = opts, next_request_id = 1 \<rparr>))))"

definition overwrite :: "byte list \<Rightarrow> byte list \<Rightarrow> byte list" where
  "overwrite buf bs = bs @ drop (length bs) buf"

section \<open>The client\<close>

text \<open>\<open>generate\<close> up to its wait: the request id in use, and whether a request was posted.\<close>

definition client_post ::
  "rollout_request \<Rightarrow> shm_endpoint \<times> shm_region \<Rightarrow> 64 word result \<times> shm_endpoint \<times> shm_region" where
  "client_post req = (\<lambda>(ep, reg).
     if \<not> is_client ep
     then (Inl (RuntimeError ''SharedMemoryRolloutTransport: generate() called on server side''), ep, reg)
     else
       let rid = (if req_request_id req \<noteq> 0 then req_request_id req else next_request_id ep);
           ep1 = (if req_request_id req \<noteq> 0 then ep else ep\<lparr>next_request_id := next_request_id ep + 1\<rparr>);
           (bs, err) = serialize_request (payload_capacity (ep_options ep)) req;
           reg1 = reg\<lparr>hdr_request_id := rid, request_buffer := overwrite (request_buffer reg) bs\<rparr>
       in case err of
            Some e \<Rightarrow> (Inl e, ep1, reg1)
          | None \<Rightarrow> (Inr rid, ep1, reg1\<lparr>hdr_request_size := length bs, req_sem := req_sem reg1 + 1\<rparr>))"

text \<open>\<open>generate\<close> after the wait succeeded.\<close>

definition client_receive :: "shm_region \<Rightarrow> rollout_response result" where
  "client_receive reg =
     (if hdr_response_status reg \<noteq> 0
      then Inl (RuntimeError (''SharedMemoryRolloutTransport: server reported error status '' @
             to_string (uint (hdr_response_status reg))))
      else deserialize_response (take (hdr_response_size reg) (response_buffer reg)))"

definition timeout_error :: cpp_error where
  "timeout_error = RuntimeError ''SharedMemoryRolloutTransport: timed out waiting for response''"

section \<open>The server\<close>

type_synonym handler = "rollout_request \<Rightarrow> rollout_response result"

text \<open>\<open>serve_one\<close> after its wait: read the request and run the handler; \<open>None\<close> is status 1.\<close>

definition serve_compute :: "handler \<Rightarrow> shm_region \<Rightarrow> rollout_response option" where
  "serve_compute handler reg =
     (case deserialize_request (take (hdr_request_size reg) (request_buffer reg)) of
        Inl e \<Rightarrow> None
      | Inr req \<Rightarrow>
          let req1 = (if req_request_id req = 0 then req\<lparr>req_request_id := hdr_request_id reg\<rparr> else req)
          in case handler req1 of
               Inl e \<Rightarrow> None
             | Inr resp \<Rightarrow>
                 Some (if resp_request_id resp = 0 then resp\<lparr>resp_request_id := req_request_id req1\<rparr> else resp))"

text \<open>The rest of \<open>serve_one\<close>: write the response and its status, and post.\<close>

definition serve_post :: "nat \<Rightarrow> rollout_response option \<Rightarrow> shm_region \<Rightarrow> shm_region \<times> bool" where
  "serve_post cap r reg =
     (let (reg1, size, status) =
        (case r of
           None \<Rightarrow> (reg, 0, 1)
         | Some resp \<Rightarrow>
             let (bs, err) = serialize_response cap resp;
                 reg1 = reg\<lparr>response_buffer := overwrite (response_buffer reg) bs\<rparr>
             in case err of None \<Rightarrow> (reg1, length bs, 0) | Some e \<Rightarrow> (reg1, 0, 2))
      in (reg1\<lparr>hdr_response_size := size, hdr_response_status := status, resp_sem := resp_sem reg1 + 1\<rparr>,
          status = 0))"

section \<open>Client and server\<close>

datatype client_mode = Idle | Waiting "64 word" rollout_request

datatype server_mode = Listening | Serving "rollout_response option"

record transport_state =
  ts_client :: shm_endpoint
  ts_region :: shm_region
  ts_mode :: client_mode
  ts_server :: server_mode
  ts_log :: "(64 word \<times> rollout_request \<times> rollout_response result) list"

inductive transport_step :: "bool \<Rightarrow> handler \<Rightarrow> transport_state \<Rightarrow> transport_state \<Rightarrow> bool"
  for timeouts handler where
  call: "ts_mode s = Idle \<Longrightarrow> map_ordered (req_extra_params req) \<Longrightarrow>
    client_post req (ts_client s, ts_region s) = (Inr rid, ep, reg) \<Longrightarrow>
    transport_step timeouts handler s
      (s\<lparr>ts_client := ep, ts_region := reg, ts_mode := Waiting rid req\<rparr>)"
| call_throws: "ts_mode s = Idle \<Longrightarrow> map_ordered (req_extra_params req) \<Longrightarrow>
    client_post req (ts_client s, ts_region s) = (Inl e, ep, reg) \<Longrightarrow>
    transport_step timeouts handler s
      (s\<lparr>ts_client := ep, ts_region := reg, ts_log := ts_log s @ [(hdr_request_id reg, req, Inl e)]\<rparr>)"
| serve_take: "ts_server s = Listening \<Longrightarrow> 0 < req_sem (ts_region s) \<Longrightarrow>
    transport_step timeouts handler s
      (s\<lparr>ts_region := (ts_region s)\<lparr>req_sem := req_sem (ts_region s) - 1\<rparr>,
         ts_server := Serving (serve_compute handler (ts_region s))\<rparr>)"
| serve_reply: "ts_server s = Serving r \<Longrightarrow>
    transport_step timeouts handler s
      (s\<lparr>ts_region := fst (serve_post (payload_capacity (ep_options (ts_client s))) r (ts_region s)),
         ts_server := Listening\<rparr>)"
| receive: "ts_mode s = Waiting rid req \<Longrightarrow> 0 < resp_sem (ts_region s) \<Longrightarrow>
    transport_step timeouts handler s
      (s\<lparr>ts_region := (ts_region s)\<lparr>resp_sem := resp_sem (ts_region s) - 1\<rparr>, ts_mode := Idle,
         ts_log := ts_log s @ [(rid, req, client_receive (ts_region s))]\<rparr>)"
| timeout: "timeouts \<Longrightarrow> ts_mode s = Waiting rid req \<Longrightarrow>
    transport_step timeouts handler s
      (s\<lparr>ts_mode := Idle, ts_log := ts_log s @ [(rid, req, Inl timeout_error)]\<rparr>)"

inductive_cases transport_stepE: "transport_step timeouts handler s s'"

inductive transport_reach :: "bool \<Rightarrow> handler \<Rightarrow> transport_state \<Rightarrow> transport_state \<Rightarrow> bool"
  for timeouts handler where
  reach_refl: "transport_reach timeouts handler s s"
| reach_step: "transport_reach timeouts handler s s' \<Longrightarrow> transport_step timeouts handler s' s'' \<Longrightarrow>
    transport_reach timeouts handler s s''"

definition start_transport :: "shm_endpoint \<Rightarrow> shm_region \<Rightarrow> transport_state" where
  "start_transport ep reg =
     \<lparr> ts_client = ep, ts_region = reg, ts_mode = Idle, ts_server = Listening, ts_log = [] \<rparr>"

section \<open>One call\<close>

definition request_fits :: "nat \<Rightarrow> rollout_request \<Rightarrow> bool" where
  "request_fits cap req \<longleftrightarrow> length (concat (request_writes req)) \<le> cap"

definition with_id :: "64 word \<Rightarrow> rollout_request \<Rightarrow> rollout_request" where
  "with_id rid req = (if req_request_id req = 0 then req\<lparr>req_request_id := rid\<rparr> else req)"

definition handled :: "handler \<Rightarrow> 64 word \<Rightarrow> rollout_request \<Rightarrow> rollout_response option" where
  "handled handler rid req =
     (case handler (with_id rid req) of
        Inl e \<Rightarrow> None
      | Inr resp \<Rightarrow> Some (if resp_request_id resp = 0
          then resp\<lparr>resp_request_id := req_request_id (with_id rid req)\<rparr> else resp))"

definition status_error :: "int \<Rightarrow> cpp_error" where
  "status_error n = RuntimeError (''SharedMemoryRolloutTransport: server reported error status '' @ to_string n)"

text \<open>What the caller is owed: the handler's response, or the status of what went wrong.\<close>

definition answer :: "nat \<Rightarrow> handler \<Rightarrow> 64 word \<Rightarrow> rollout_request \<Rightarrow> rollout_response result" where
  "answer cap handler rid req =
     (case handled handler rid req of
        None \<Rightarrow> Inl (status_error 1)
      | Some resp \<Rightarrow> if length (concat (response_writes resp)) \<le> cap then Inr resp else Inl (status_error 2))"

definition ordered_handler :: "handler \<Rightarrow> bool" where
  "ordered_handler handler \<longleftrightarrow> (\<forall>req resp. handler req = Inr resp \<longrightarrow> map_ordered (resp_metrics resp))"

lemma run_writer_cases:
  assumes "length out \<le> cap"
  shows "run_writer cap cs out = (out @ concat cs, None) \<and> length (out @ concat cs) \<le> cap \<or>
    (\<exists>bs. run_writer cap cs out = (bs, Some capacity_error) \<and> length bs \<le> cap \<and> cap < length (out @ concat cs))"
proof (cases "length (out @ concat cs) \<le> cap")
  case True
  then show ?thesis using run_writer_fits [of out cs cap] by simp
next
  case False
  obtain bs r where r: "run_writer cap cs out = (bs, r)" by fastforce
  have "r \<noteq> None"
  proof
    assume "r = None"
    then have "run_writer cap cs out = (bs, None)" using r by simp
    from run_writer_None [OF this assms] show False using False by simp
  qed
  then show ?thesis using run_writer_bound [OF r assms] r False by auto
qed

lemma serialize_request_cases:
  "request_fits cap req \<Longrightarrow> serialize_request cap req = (concat (request_writes req), None)"
  "\<not> request_fits cap req \<Longrightarrow>
     \<exists>bs. serialize_request cap req = (bs, Some capacity_error) \<and> length bs \<le> cap"
  using run_writer_cases [of "[]" cap "request_writes req"]
  by (auto simp: request_fits_def serialize_request_def)

lemma serialize_response_cases:
  "length (concat (response_writes resp)) \<le> cap \<Longrightarrow>
     serialize_response cap resp = (concat (response_writes resp), None)"
  "\<not> length (concat (response_writes resp)) \<le> cap \<Longrightarrow>
     \<exists>bs. serialize_response cap resp = (bs, Some capacity_error) \<and> length bs \<le> cap"
  using run_writer_cases [of "[]" cap "response_writes resp"]
  by (auto simp: serialize_response_def)

lemma length_overwrite: "length bs \<le> length buf \<Longrightarrow> length (overwrite buf bs) = length buf"
  by (simp add: overwrite_def)

lemma take_overwrite [simp]: "take (length bs) (overwrite buf bs) = bs"
  by (simp add: overwrite_def)

definition request_posted :: "rollout_request \<Rightarrow> 64 word \<Rightarrow> shm_region \<Rightarrow> bool" where
  "request_posted req rid reg \<longleftrightarrow>
     take (hdr_request_size reg) (request_buffer reg) = concat (request_writes req) \<and>
     hdr_request_id reg = rid"

definition buffers_ok :: "nat \<Rightarrow> shm_region \<Rightarrow> bool" where
  "buffers_ok cap reg \<longleftrightarrow> length (request_buffer reg) = cap \<and> length (response_buffer reg) = cap"

lemma client_post_cases:
  assumes "is_client ep" "payload_capacity (ep_options ep) = cap" "buffers_ok cap reg"
    and post: "client_post req (ep, reg) = (r, ep', reg')"
  shows "is_client ep' \<and> payload_capacity (ep_options ep') = cap \<and> buffers_ok cap reg' \<and>
    resp_sem reg' = resp_sem reg \<and>
    (if request_fits cap req
     then \<exists>rid. r = Inr rid \<and> req_sem reg' = Suc (req_sem reg) \<and> request_posted req rid reg'
     else r = Inl capacity_error \<and> req_sem reg' = req_sem reg)"
proof (cases "request_fits cap req")
  case True
  then have "length (concat (request_writes req)) \<le> cap" by (simp add: request_fits_def)
  then show ?thesis
    using assms serialize_request_cases(1) [OF True] True
    by (auto simp: client_post_def Let_def request_posted_def buffers_ok_def length_overwrite split: if_splits)
next
  case False
  then show ?thesis
    using assms serialize_request_cases(2) [OF False]
    by (auto simp: client_post_def Let_def buffers_ok_def length_overwrite split: if_splits)
qed

lemma serve_compute_posted:
  assumes "request_posted req rid reg" "request_fits cap req" "cap < 2 ^ 32" "map_ordered (req_extra_params req)"
  shows "serve_compute handler reg = handled handler rid req"
proof -
  have "deserialize_request (concat (request_writes req)) = Inr req"
    using deserialize_serialized_request(4) [OF serialize_request_cases(1) [OF assms(2)] assms(3,4)] .
  then show ?thesis
    using assms(1)
    by (simp add: serve_compute_def handled_def with_id_def request_posted_def Let_def split: sum.split)
qed

lemma serve_post_sems:
  "req_sem (fst (serve_post cap r reg)) = req_sem reg"
  "resp_sem (fst (serve_post cap r reg)) = Suc (resp_sem reg)"
  by (auto simp: serve_post_def Let_def split: option.split prod.split)

lemma serve_post_request_side:
  "request_buffer (fst (serve_post cap r reg)) = request_buffer reg"
  "hdr_request_size (fst (serve_post cap r reg)) = hdr_request_size reg"
  "hdr_request_id (fst (serve_post cap r reg)) = hdr_request_id reg"
  by (auto simp: serve_post_def Let_def split: option.split prod.split)

lemma serve_post_buffers:
  assumes "buffers_ok cap reg"
  shows "buffers_ok cap (fst (serve_post cap r reg))"
proof (cases r)
  case (Some resp)
  then show ?thesis
    using assms serialize_response_cases [of resp cap]
    by (cases "length (concat (response_writes resp)) \<le> cap")
      (auto simp: serve_post_def Let_def buffers_ok_def length_overwrite)
qed (use assms in \<open>simp add: serve_post_def buffers_ok_def\<close>)

lemma serve_post_receive:
  assumes "handled handler rid req = r" "cap < 2 ^ 32" "ordered_handler handler"
  shows "client_receive (fst (serve_post cap r reg)) = answer cap handler rid req"
proof (cases r)
  case None
  then show ?thesis using assms(1)
    by (simp add: serve_post_def client_receive_def answer_def status_error_def)
next
  case (Some resp)
  have ord: "map_ordered (resp_metrics resp)"
    using assms(1,3) Some by (auto simp: handled_def ordered_handler_def split: sum.splits)
  show ?thesis
  proof (cases "length (concat (response_writes resp)) \<le> cap")
    case True
    have "deserialize_response (concat (response_writes resp)) = Inr resp"
      using deserialize_serialized_response(4) [OF serialize_response_cases(1) [OF True] assms(2) ord] .
    then show ?thesis using True assms(1) Some serialize_response_cases(1) [OF True]
      by (simp add: serve_post_def client_receive_def answer_def Let_def)
  next
    case False
    then show ?thesis using assms(1) Some serialize_response_cases(2) [OF False]
      by (auto simp: serve_post_def client_receive_def answer_def Let_def status_error_def)
  qed
qed

section \<open>Calls without timeouts\<close>

definition owed :: "nat \<Rightarrow> handler \<Rightarrow> 64 word \<times> rollout_request \<times> rollout_response result \<Rightarrow> bool" where
  "owed cap handler = (\<lambda>(rid, req, res).
     res = (if request_fits cap req then answer cap handler rid req else Inl capacity_error))"

definition in_flight :: "handler \<Rightarrow> nat \<Rightarrow> transport_state \<Rightarrow> bool" where
  "in_flight handler cap s \<longleftrightarrow>
     (case ts_mode s of
        Idle \<Rightarrow> ts_server s = Listening \<and> req_sem (ts_region s) = 0 \<and> resp_sem (ts_region s) = 0
      | Waiting rid req \<Rightarrow>
          request_fits cap req \<and> map_ordered (req_extra_params req) \<and>
          (ts_server s = Listening \<and> req_sem (ts_region s) = 1 \<and> resp_sem (ts_region s) = 0 \<and>
             request_posted req rid (ts_region s) \<or>
           ts_server s = Serving (handled handler rid req) \<and> req_sem (ts_region s) = 0 \<and>
             resp_sem (ts_region s) = 0 \<or>
           ts_server s = Listening \<and> req_sem (ts_region s) = 0 \<and> resp_sem (ts_region s) = 1 \<and>
             client_receive (ts_region s) = answer cap handler rid req))"

definition transport_inv :: "handler \<Rightarrow> nat \<Rightarrow> transport_state \<Rightarrow> bool" where
  "transport_inv handler cap s \<longleftrightarrow>
     is_client (ts_client s) \<and> payload_capacity (ep_options (ts_client s)) = cap \<and>
     buffers_ok cap (ts_region s) \<and> in_flight handler cap s \<and> (\<forall>x \<in> set (ts_log s). owed cap handler x)"

lemma client_receive_sem [simp]: "client_receive (reg\<lparr>resp_sem := n\<rparr>) = client_receive reg"
  by (simp add: client_receive_def)

lemma buffers_ok_sems [simp]:
  "buffers_ok cap (reg\<lparr>resp_sem := n\<rparr>) = buffers_ok cap reg"
  "buffers_ok cap (reg\<lparr>req_sem := n\<rparr>) = buffers_ok cap reg"
  by (simp_all add: buffers_ok_def)

lemma transport_inv_step:
  assumes step: "transport_step False handler s s'" and inv: "transport_inv handler cap s"
    and cap: "cap < 2 ^ 32" and h: "ordered_handler handler"
  shows "transport_inv handler cap s'"
  using step
proof cases
  case (call req rid ep reg)
  then show ?thesis
    using inv client_post_cases [of "ts_client s" cap "ts_region s" req "Inr rid" ep reg]
    by (auto simp: transport_inv_def in_flight_def split: if_splits)
next
  case (call_throws req e ep reg)
  then show ?thesis
    using inv client_post_cases [of "ts_client s" cap "ts_region s" req "Inl e" ep reg]
    by (auto simp: transport_inv_def in_flight_def owed_def split: if_splits)
next
  case serve_take
  then show ?thesis
    using inv serve_compute_posted [OF _ _ cap]
    by (auto simp: transport_inv_def in_flight_def split: client_mode.splits)
next
  case (serve_reply r)
  then show ?thesis
    using inv serve_post_receive [OF _ cap h]
    by (auto simp: transport_inv_def in_flight_def serve_post_sems serve_post_buffers split: client_mode.splits)
next
  case (receive rid req)
  then show ?thesis
    using inv by (auto simp: transport_inv_def in_flight_def owed_def)
next
  case (timeout rid req)
  then show ?thesis by simp
qed

lemma transport_inv_start:
  assumes "create_client opts = Inr (ep, reg)"
  shows "transport_inv handler (payload_capacity opts) (start_transport ep reg)"
  using assms
  by (auto simp: create_client_def transport_inv_def start_transport_def in_flight_def buffers_ok_def
      result_simps)

lemma transport_inv_reach:
  assumes "transport_reach False handler s s'" "transport_inv handler cap s" "cap < 2 ^ 32" "ordered_handler handler"
  shows "transport_inv handler cap s'"
  using assms by (induction rule: transport_reach.induct) (auto intro: transport_inv_step)

lemma waiting_answered:
  assumes inv: "transport_inv handler cap s" and w: "ts_mode s = Waiting rid req"
    and cap: "cap < 2 ^ 32" and h: "ordered_handler handler"
  shows "\<exists>s'. transport_reach False handler s s' \<and> ts_mode s' = Idle \<and>
    ts_log s' = ts_log s @ [(rid, req, answer cap handler rid req)]"
proof -
  have third: ?thesis if s1: "transport_reach False handler s s1" "transport_inv handler cap s1"
    "ts_mode s1 = Waiting rid req" "ts_log s1 = ts_log s" "resp_sem (ts_region s1) = 1" for s1
  proof -
    from s1 have "client_receive (ts_region s1) = answer cap handler rid req"
      by (auto simp: transport_inv_def in_flight_def)
    then show ?thesis
      using reach_step [OF s1(1) receive [OF s1(3)]] s1 by (intro exI conjI) auto
  qed
  have second: ?thesis if s1: "transport_reach False handler s s1" "transport_inv handler cap s1"
    "ts_mode s1 = Waiting rid req" "ts_log s1 = ts_log s" "ts_server s1 \<noteq> Listening" for s1
  proof -
    from s1(5) obtain r where r: "ts_server s1 = Serving r" by (cases "ts_server s1") auto
    note st = serve_reply [OF r, of False handler]
    show ?thesis
      by (rule third [OF reach_step [OF s1(1) st] transport_inv_step [OF st s1(2) cap h]])
        (use s1 r in \<open>auto simp: serve_post_sems transport_inv_def in_flight_def\<close>)
  qed
  consider "ts_server s \<noteq> Listening" | "resp_sem (ts_region s) = 1"
    | "ts_server s = Listening" "0 < req_sem (ts_region s)"
    using inv w by (auto simp: transport_inv_def in_flight_def)
  then show ?thesis
  proof cases
    case 1
    then show ?thesis using second [OF reach_refl inv w] by simp
  next
    case 2
    then show ?thesis using third [OF reach_refl inv w] by simp
  next
    case 3
    note st = serve_take [OF 3, of False handler]
    show ?thesis
      by (rule second [OF reach_step [OF reach_refl st] transport_inv_step [OF st inv cap h]])
        (use w in auto)
  qed
qed

text \<open>
  Claim C9. As long as no wait times out, the transport is a remote procedure call: the server
  can attach to the region the client created; in every reachable state every finished call has
  returned exactly the handler's response to its own request (or the status of its failure, or
  the capacity exception if the request did not fit), at most one of the two semaphores is
  raised, and a waiting call is always answered.
\<close>

theorem transport_delivers_answers:
  assumes "create_client opts = Inr (ep, reg)" "payload_capacity opts < 2 ^ 32" "ordered_handler handler"
    "transport_reach False handler (start_transport ep reg) s"
  shows "(\<exists>srv. attach_server opts reg = Inr srv) \<and>
    (\<forall>(rid, req, res) \<in> set (ts_log s). res =
       (if request_fits (payload_capacity opts) req then answer (payload_capacity opts) handler rid req
        else Inl capacity_error)) \<and>
    req_sem (ts_region s) + resp_sem (ts_region s) \<le> 1 \<and>
    (\<forall>rid req. ts_mode s = Waiting rid req \<longrightarrow>
       (\<exists>s'. transport_reach False handler s s' \<and> ts_mode s' = Idle \<and>
          ts_log s' = ts_log s @ [(rid, req, answer (payload_capacity opts) handler rid req)]))"
proof -
  have inv: "transport_inv handler (payload_capacity opts) s"
    using transport_inv_reach [OF assms(4) transport_inv_start [OF assms(1)] assms(2,3)] .
  have "\<exists>srv. attach_server opts reg = Inr srv"
    using assms(1) by (auto simp: create_client_def attach_server_def result_simps)
  moreover have "req_sem (ts_region s) + resp_sem (ts_region s) \<le> 1"
    using inv by (auto simp: transport_inv_def in_flight_def split: client_mode.splits)
  moreover have "\<forall>(rid, req, res) \<in> set (ts_log s). res =
       (if request_fits (payload_capacity opts) req then answer (payload_capacity opts) handler rid req
        else Inl capacity_error)"
    using inv unfolding transport_inv_def owed_def by (elim conjE)
  moreover have "\<forall>rid req. ts_mode s = Waiting rid req \<longrightarrow>
       (\<exists>s'. transport_reach False handler s s' \<and> ts_mode s' = Idle \<and>
          ts_log s' = ts_log s @ [(rid, req, answer (payload_capacity opts) handler rid req)])"
    by (intro allI impI waiting_answered [OF inv _ assms(2,3)])
  ultimately show ?thesis by (intro conjI)
qed

definition loopback_handler :: handler where
  "loopback_handler req = Inr (loopback_generate \<lparr> completion_suffix = [], synthesize_token_ids = False \<rparr> req)"

definition small_options :: shm_options where
  "small_options = \<lparr> opt_name = ''cverl'', payload_capacity = 4096 \<rparr>"


lemma ordered_loopback: "ordered_handler loopback_handler"
  by (simp add: ordered_handler_def loopback_handler_def loopback_generate_def map_ordered_def)



lemma small_client: "\<exists>ep reg. create_client small_options = Inr (ep, reg)"
  by (simp add: create_client_def small_options_def)

theorem transport_delivers_answers_witness:
  "\<exists>ep reg s. create_client small_options = Inr (ep, reg) \<and>
     transport_reach False loopback_handler (start_transport ep reg) s \<and>
     req_sem (ts_region s) + resp_sem (ts_region s) \<le> 1"
proof -
  obtain ep reg where c: "create_client small_options = Inr (ep, reg)" using small_client by blast
  have "payload_capacity small_options < 2 ^ 32" by (simp add: small_options_def)
  then show ?thesis
    using transport_delivers_answers [OF c _ ordered_loopback reach_refl] c
      reach_refl [of False loopback_handler "start_transport ep reg"] by blast
qed

section \<open>A timeout\<close>




end
