(* ===== verification/Flat_Tensor.thy ===== *)
theory Flat_Tensor
  imports Cxx_String
begin

text \<open>
  Tensors as the distributed code uses them: a device, an element type, a shape, whether the
  storage is contiguous, and the elements in order. What torch computes on elements (the conversion
  \<^verbatim>\<open>.to(dtype)\<close>) is a parameter \<open>conv\<close>. Sizes are natural numbers: no code modelled here
  subtracts below zero. The second half is the arithmetic of a window on a list of tensors laid end
  to end, which every flat-parameter routine cuts out.
\<close>

section \<open>Tensors\<close>

datatype device = Cpu | Cuda nat

datatype scalar_type = KFloat32 | KFloat16 | KBFloat16 | KFloat64 | KInt64 | KInt32 | KUInt8 | KBool

record 'v tensor =
  t_device :: device
  t_dtype :: scalar_type
  t_shape :: "nat list"
  t_contiguous :: bool
  t_values :: "'v list"

type_synonym 'v conv = "scalar_type \<Rightarrow> 'v \<Rightarrow> 'v"

definition numel :: "'v tensor \<Rightarrow> nat" where
  "numel t = length (t_values t)"

definition tensor_dim :: "'v tensor \<Rightarrow> nat" where
  "tensor_dim t = length (t_shape t)"

text \<open>A fresh one-dimensional tensor, and \<^verbatim>\<open>narrow(0, start, n)\<close> of the flattened elements.\<close>

definition vector :: "device \<Rightarrow> scalar_type \<Rightarrow> 'v list \<Rightarrow> 'v tensor" where
  "vector dev dt vs = \<lparr> t_device = dev, t_dtype = dt, t_shape = [length vs], t_contiguous = True, t_values = vs \<rparr>"

definition contiguous :: "'v tensor \<Rightarrow> 'v tensor" where
  "contiguous t = t\<lparr>t_contiguous := True\<rparr>"

definition narrow :: "nat \<Rightarrow> nat \<Rightarrow> 'v list \<Rightarrow> 'v list" where
  "narrow start n vs = take n (drop start vs)"

text \<open>\<^verbatim>\<open>vs.narrow(0, start, src.numel()).copy_(src)\<close>\<close>

definition copy_into :: "nat \<Rightarrow> 'v list \<Rightarrow> 'v list \<Rightarrow> 'v list" where
  "copy_into start src vs = take start vs @ src @ drop (start + length src) vs"

lemma vector_sel [simp]:
  "t_device (vector dev dt vs) = dev" "t_dtype (vector dev dt vs) = dt" "t_values (vector dev dt vs) = vs"
  "t_contiguous (vector dev dt vs)" "tensor_dim (vector dev dt vs) = 1" "numel (vector dev dt vs) = length vs"
  by (simp_all add: vector_def numel_def tensor_dim_def)

lemma contiguous_sel [simp]:
  "t_device (contiguous t) = t_device t" "t_dtype (contiguous t) = t_dtype t"
  "t_values (contiguous t) = t_values t" "t_contiguous (contiguous t)"
  "tensor_dim (contiguous t) = tensor_dim t" "numel (contiguous t) = numel t" "t_shape (contiguous t) = t_shape t"
  by (simp_all add: contiguous_def numel_def tensor_dim_def)

lemma contiguous_vector [simp]: "contiguous (vector dev dt vs) = vector dev dt vs"
  by (simp add: contiguous_def vector_def)

lemma length_copy_into [simp]: "start + length src \<le> length vs \<Longrightarrow> length (copy_into start src vs) = length vs"
  by (simp add: copy_into_def)

lemma nth_copy_into:
  assumes "start + length src \<le> length vs" "i < length vs"
  shows "copy_into start src vs ! i =
    (if start \<le> i \<and> i < start + length src then src ! (i - start) else vs ! i)"
  using assms by (auto simp: copy_into_def nth_append)

lemma length_narrow: "start + n \<le> length vs \<Longrightarrow> length (narrow start n vs) = n"
  by (simp add: narrow_def)

lemma nth_narrow: "start + n \<le> length vs \<Longrightarrow> i < n \<Longrightarrow> narrow start n vs ! i = vs ! (start + i)"
  by (simp add: narrow_def)

section \<open>Windows\<close>

text \<open>
  \<open>overlap tb B E vs\<close>: the elements of \<open>vs\<close>, which starts at position \<open>tb\<close> of the flat
  order, that lie in \<open>[B, E)\<close>, computed from the two ends as the code does.
\<close>

definition overlap :: "nat \<Rightarrow> nat \<Rightarrow> nat \<Rightarrow> 'v list \<Rightarrow> 'v list" where
  "overlap tb B E vs =
     (let ob = max tb B; oe = min (tb + length vs) E
      in if ob < oe then narrow (ob - tb) (oe - ob) vs else [])"

lemma overlap_alt: "overlap tb B E vs = drop (B - tb) (take (E - tb) vs)"
proof (cases "max tb B < min (tb + length vs) E")
  case True
  have "overlap tb B E vs = take (min (tb + length vs) E - max tb B) (drop (B - tb) vs)"
    using True by (simp add: overlap_def Let_def narrow_def max_def)
  also have "\<dots> = take (E - tb - (B - tb)) (drop (B - tb) vs)"
    using True by (intro nth_equalityI) (auto simp: min_def max_def)
  finally show ?thesis by (simp add: drop_take)
next
  case False
  then show ?thesis by (auto simp: overlap_def Let_def)
qed

lemma length_overlap: "length (overlap tb B E vs) = min (tb + length vs) E - max tb B"
  by (auto simp: overlap_alt)

lemma overlap_append:
  "overlap tb B E (xs @ ys) = overlap tb B E xs @ overlap (tb + length xs) B E ys"
proof (cases "E - tb \<le> length xs")
  case True
  then show ?thesis by (simp add: overlap_alt)
next
  case False
  then have "length (take (E - tb) xs) = length xs" by simp
  moreover have "E - (tb + length xs) = E - tb - length xs" "B - (tb + length xs) = B - tb - length xs"
    by simp_all
  ultimately show ?thesis unfolding overlap_alt by (simp only: take_append drop_append)
qed

lemma overlap_outside: "E \<le> tb \<Longrightarrow> overlap tb B E vs = []"
  by (simp add: overlap_alt)

lemma overlap_map: "overlap tb B E (map f vs) = map f (overlap tb B E vs)"
  by (simp add: overlap_alt drop_map take_map)

text \<open>A window on tensors laid end to end is the window on their concatenation.\<close>

fun overlaps :: "nat \<Rightarrow> nat \<Rightarrow> nat \<Rightarrow> 'v list list \<Rightarrow> 'v list" where
  "overlaps tb B E [] = []"
| "overlaps tb B E (vs # vss) = overlap tb B E vs @ overlaps (tb + length vs) B E vss"

lemma overlaps_concat: "overlaps tb B E vss = overlap tb B E (concat vss)"
  by (induction vss arbitrary: tb) (simp_all add: overlap_append, simp add: overlap_alt)

lemma overlap_0: "overlap 0 B E vs = drop B (take E vs)"
  by (simp add: overlap_alt)

text \<open>Consecutive windows make up the whole.\<close>

lemma windows_concat:
  "concat (map (\<lambda>r. overlap 0 (r * k) (r * k + k) vs) [0..<n]) = take (n * k) vs"
proof (induction n)
  case (Suc n)
  have "overlap 0 (n * k) (n * k + k) vs = take k (drop (n * k) vs)"
    by (simp only: overlap_0 drop_take add_diff_cancel_left')
  moreover have "take (Suc n * k) vs = take (n * k) vs @ take k (drop (n * k) vs)"
    by (simp add: take_add [symmetric] add.commute)
  ultimately show ?case using Suc by simp
qed simp

end
