(* ===== verification/Collectives.thy ===== *)
theory Collectives
  imports Flat_Tensor
begin

text \<open>
  The collective operations of \<^verbatim>\<open>include/cverl/distributed/collectives.h\<close> as seen by one
  rank: an object of the class \<^verbatim>\<open>Collectives\<close> is a record of its methods. A method gets
  the number of the call (how many collectives this rank has issued before) besides the arguments of
  the code, since its result depends on what the other ranks pass to the same call. The locales
  \<open>gather_group\<close> and \<open>scatter_group\<close> state what a call returns in terms of the inputs of
  all ranks; \<open>single_process\<close> is the implementation in
  \<^verbatim>\<open>src/distributed/collectives.cc\<close>, which meets both for a group of one.
\<close>

datatype reduce_op = ReduceSum | ReduceMean | ReduceMax

record 'v collectives =
  c_rank :: int
  c_world_size :: int
  c_broadcast :: "nat \<Rightarrow> 'v tensor \<Rightarrow> int \<Rightarrow> int list \<Rightarrow> 'v tensor result"
  c_all_reduce :: "nat \<Rightarrow> 'v tensor \<Rightarrow> reduce_op \<Rightarrow> int list \<Rightarrow> 'v tensor result"
  c_all_gather :: "nat \<Rightarrow> 'v tensor \<Rightarrow> int list \<Rightarrow> int \<Rightarrow> 'v tensor result"
  c_reduce_scatter :: "nat \<Rightarrow> 'v tensor \<Rightarrow> reduce_op \<Rightarrow> int list \<Rightarrow> int \<Rightarrow> 'v tensor result"
  c_all_to_all :: "nat \<Rightarrow> 'v tensor \<Rightarrow> int list \<Rightarrow> int \<Rightarrow> 'v tensor result"
  c_send :: "nat \<Rightarrow> 'v tensor \<Rightarrow> int \<Rightarrow> unit result"
  c_recv_like :: "nat \<Rightarrow> 'v tensor \<Rightarrow> int \<Rightarrow> 'v tensor result"
  c_barrier :: "nat \<Rightarrow> unit result"

definition require_single_rank_group :: "int list \<Rightarrow> unit result" where
  "require_single_rank_group members =
     throw_if (length members \<noteq> 1 \<or> members ! 0 \<noteq> 0)
       (InvalidArgument ''SingleProcessCollectives only supports group {0}'')"

text \<open>
  \<open>empty_like\<close> stands for \<^verbatim>\<open>torch::empty_like\<close>, whose elements are unspecified.
\<close>

definition single_process :: "('v tensor \<Rightarrow> 'v tensor) \<Rightarrow> 'v collectives" where
  "single_process empty_like =
     \<lparr> c_rank = 0, c_world_size = 1,
       c_broadcast = (\<lambda>_ input root members.
         and_then (require_single_rank_group members) (\<lambda>_.
         and_then (throw_if (root \<noteq> 0)
           (InvalidArgument ''SingleProcessCollectives can only broadcast from root 0'')) (\<lambda>_. Inr input))),
       c_all_reduce = (\<lambda>_ input op members. and_then (require_single_rank_group members) (\<lambda>_. Inr input)),
       c_all_gather = (\<lambda>_ input members dim. and_then (require_single_rank_group members) (\<lambda>_. Inr input)),
       c_reduce_scatter = (\<lambda>_ input op members dim. and_then (require_single_rank_group members) (\<lambda>_. Inr input)),
       c_all_to_all = (\<lambda>_ input members dim. and_then (require_single_rank_group members) (\<lambda>_. Inr input)),
       c_send = (\<lambda>_ input peer. throw_if (peer \<noteq> 0)
         (InvalidArgument ''SingleProcessCollectives can only send to rank 0'')),
       c_recv_like = (\<lambda>_ like peer. and_then (throw_if (peer \<noteq> 0)
         (InvalidArgument ''SingleProcessCollectives can only recv from rank 0'')) (\<lambda>_. Inr (empty_like like))),
       c_barrier = (\<lambda>_. Inr ()) \<rparr>"

text \<open>The default \<^verbatim>\<open>Collectives::send_recv\<close>, and the override of the single process.\<close>

definition send_recv :: "'v collectives \<Rightarrow> nat \<Rightarrow> 'v tensor \<Rightarrow> int \<Rightarrow> 'v tensor \<Rightarrow> int \<Rightarrow> 'v tensor result" where
  "send_recv c call input send_peer like recv_peer =
     and_then (c_send c call input send_peer) (\<lambda>_. c_recv_like c (call + 1) like recv_peer)"

definition single_process_send_recv ::
  "('v tensor \<Rightarrow> 'v tensor) \<Rightarrow> 'v tensor \<Rightarrow> int \<Rightarrow> 'v tensor \<Rightarrow> int \<Rightarrow> 'v tensor result" where
  "single_process_send_recv empty_like input send_peer like recv_peer =
     and_then (throw_if (send_peer \<noteq> 0 \<or> recv_peer \<noteq> 0)
       (InvalidArgument ''SingleProcessCollectives can only send_recv with rank 0'')) (\<lambda>_. Inr (empty_like like))"

section \<open>What the calls of a group return\<close>

text \<open>
  \<open>input c d\<close> are the elements rank number \<open>d\<close> of the group passes to call \<open>c\<close>, for the calls
  in \<open>calls\<close>. All-gather returns the inputs end to end.
\<close>

locale gather_group =
  fixes cs :: "nat \<Rightarrow> 'v collectives" and members :: "int list" and dev :: device and dt :: scalar_type
    and calls :: "nat set" and input :: "nat \<Rightarrow> nat \<Rightarrow> 'v list"
  assumes member_rank: "d < length members \<Longrightarrow> c_rank (cs d) = members ! d"
    and all_gather: "d < length members \<Longrightarrow> c \<in> calls \<Longrightarrow>
      c_all_gather (cs d) c (vector dev dt (input c d)) members 0 =
        Inr (vector dev dt (concat (map (input c) [0..<length members])))"

text \<open>
  Reduce-scatter reduces element by element (\<open>reduce\<close> on the list of the ranks' elements) and
  returns to each rank its equal share.
\<close>

definition reduced_chunk :: "('v list \<Rightarrow> 'v) \<Rightarrow> nat \<Rightarrow> (nat \<Rightarrow> 'v list) \<Rightarrow> nat \<Rightarrow> nat \<Rightarrow> 'v list" where
  "reduced_chunk reduce n xs k d = map (\<lambda>j. reduce (map (\<lambda>e. xs e ! (d * k + j)) [0..<n])) [0..<k]"

locale scatter_group =
  fixes cs :: "nat \<Rightarrow> 'v collectives" and members :: "int list" and dev :: device and dt :: scalar_type
    and op :: reduce_op and reduce :: "'v list \<Rightarrow> 'v" and calls :: "nat set" and input :: "nat \<Rightarrow> nat \<Rightarrow> 'v list"
  assumes member_rank: "d < length members \<Longrightarrow> c_rank (cs d) = members ! d"
    and reduce_scatter: "d < length members \<Longrightarrow> c \<in> calls \<Longrightarrow>
      (\<And>e. e < length members \<Longrightarrow> length (input c e) = length members * k) \<Longrightarrow>
      c_reduce_scatter (cs d) c (vector dev dt (input c d)) op members 0 =
        Inr (vector dev dt (reduced_chunk reduce (length members) (input c) k d))"

text \<open>The single process: nothing to exchange, and a reduction of one value is that value.\<close>

lemma require_single_rank_group_ok [simp]: "require_single_rank_group [0] = Inr ()"
  by (simp add: require_single_rank_group_def)

interpretation single_gather: gather_group "\<lambda>_. single_process empty_like" "[0]" dev dt calls input
  for empty_like dev dt calls input
  by unfold_locales (simp_all add: single_process_def)

interpretation single_scatter: scatter_group "\<lambda>_. single_process empty_like" "[0]" dev dt op hd calls input
  for empty_like dev dt op calls input
proof
  fix d c k
  assume "d < length [0]" and len: "\<And>e. e < length [0] \<Longrightarrow> length (input c e) = length [0] * k"
  then have d: "d = 0" and "length (input c 0) = k" by simp_all
  then have "reduced_chunk hd (length [0]) (input c) k d = input c d"
    by (auto simp: reduced_chunk_def intro: nth_equalityI)
  then show "c_reduce_scatter (single_process empty_like) c (vector dev dt (input c d)) op [0] 0 =
      Inr (vector dev dt (reduced_chunk hd (length [0]) (input c) k d))"
    by (simp add: single_process_def)
qed (simp_all add: single_process_def)

end
