(* ===== verification/Optimizer_Sharding.thy ===== *)
theory Optimizer_Sharding
  imports Collectives
begin

text \<open>
  \<^verbatim>\<open>src/distributed/optimizer_sharding.cc\<close>: the parameters of a data-parallel group are laid
  end to end, padded to a multiple of the group's size and cut into one shard per rank. The
  collectives a rank calls are parameters; what they do across ranks is the contract
  \<open>collective_group\<close>. The lemmas show that the shards are the padded flat vector, that the
  bucketed routines compute what the unbucketed ones do, and that gathering and applying writes
  every parameter.
\<close>

section \<open>Shards\<close>

record flat_range =
  r_parameter_index :: int
  r_parameter_offset :: int
  r_shard_offset :: int
  r_numel :: int

record 'v flat_shard =
  fs_shard :: "'v tensor option"
  fs_original_numel :: int
  fs_padded_numel :: int
  fs_begin :: int
  fs_end :: int
  fs_ranges :: "flat_range list"

definition validate_dp_rank :: "int \<Rightarrow> int \<Rightarrow> unit result" where
  "validate_dp_rank data_parallel data_rank =
     throw_if (data_parallel \<le> 0 \<or> data_rank < 0 \<or> data_rank \<ge> data_parallel)
       (InvalidArgument ''invalid data parallel rank/world size'')"

definition padded_size :: "nat \<Rightarrow> nat \<Rightarrow> nat" where
  "padded_size n dp = (let remainder = n mod dp in n + (if remainder = 0 then 0 else dp - remainder))"

text \<open>The loop that checks the tensors; \<open>dev\<close> is the device of the first one.\<close>

fun check_tensors :: "string \<Rightarrow> device option \<Rightarrow> 'v tensor option list \<Rightarrow> ('v tensor list \<times> device option) result" where
  "check_tensors name dev [] = Inr ([], dev)"
| "check_tensors name dev (None # ts) =
     Inl (InvalidArgument (name @ '' requires contiguous defined tensors''))"
| "check_tensors name dev (Some t # ts) =
     (if \<not> t_contiguous t then Inl (InvalidArgument (name @ '' requires contiguous defined tensors''))
      else if dev \<noteq> None \<and> dev \<noteq> Some (t_device t)
      then Inl (InvalidArgument (name @ '' requires tensors on one device''))
      else and_then (check_tensors name (Some (t_device t)) ts) (\<lambda>(ts', dev'). Inr (t # ts', dev')))"

text \<open>The ranges of a shard \<open>[B, E)\<close> on tensors of the given sizes, and the pieces cut out.\<close>

fun shard_ranges :: "nat \<Rightarrow> nat \<Rightarrow> nat \<Rightarrow> nat \<Rightarrow> nat list \<Rightarrow> flat_range list" where
  "shard_ranges i tb B E [] = []"
| "shard_ranges i tb B E (n # ns) =
     (let te = tb + n; ob = max tb B; oe = min te E
      in (if ob < oe
          then [\<lparr> r_parameter_index = int i, r_parameter_offset = int (ob - tb),
                  r_shard_offset = int (ob - B), r_numel = int (oe - ob) \<rparr>]
          else []) @ shard_ranges (Suc i) te B E ns)"

fun shard_parts :: "nat \<Rightarrow> nat \<Rightarrow> nat \<Rightarrow> 'v tensor list \<Rightarrow> 'v list list" where
  "shard_parts tb B E [] = []"
| "shard_parts tb B E (t # ts) =
     (let te = tb + numel t; ob = max tb B; oe = min te E
      in (if ob < oe then [narrow (ob - tb) (oe - ob) (t_values t)] else []) @ shard_parts te B E ts)"

definition flatten_tensor_list_shard ::
  "('v :: zero) conv \<Rightarrow> 'v tensor option list \<Rightarrow> int \<Rightarrow> int \<Rightarrow> scalar_type \<Rightarrow> string \<Rightarrow> 'v flat_shard result" where
  "flatten_tensor_list_shard conv tensors data_parallel data_rank dtype name =
     and_then (validate_dp_rank data_parallel data_rank) (\<lambda>_.
     and_then (check_tensors name None tensors) (\<lambda>(ts, dev).
     let original = sum_list (map numel ts);
         padded = padded_size original (nat data_parallel);
         shard_size = padded div nat data_parallel;
         B = nat data_rank * shard_size;
         E = B + shard_size;
         parts = map (map (conv dtype)) (shard_parts 0 B E ts);
         valid_begin = min B original;
         valid_end = min E original;
         pad_numel = shard_size - (valid_end - valid_begin);
         parts' = parts @ (if pad_numel > 0 then [replicate pad_numel 0] else []);
         device = (case dev of Some d \<Rightarrow> d | None \<Rightarrow> Cpu);
         shard = vector device dtype (if parts' = [] then replicate shard_size 0 else concat parts')
     in Inr \<lparr> fs_shard = Some shard, fs_original_numel = int original, fs_padded_numel = int padded,
              fs_begin = int B, fs_end = int E, fs_ranges = shard_ranges 0 0 B E (map numel ts) \<rparr>))"

definition make_flat_shard_metadata ::
  "int list \<Rightarrow> int \<Rightarrow> int \<Rightarrow> 'v tensor option \<Rightarrow> string \<Rightarrow> 'v flat_shard result" where
  "make_flat_shard_metadata tensor_numels data_parallel data_rank shard name =
     and_then (validate_dp_rank data_parallel data_rank) (\<lambda>_.
     and_then (throw_if (\<exists>n \<in> set tensor_numels. n < 0)
       (InvalidArgument (name @ '' requires non-negative tensor numel''))) (\<lambda>_.
     let numels = map nat tensor_numels;
         original = sum_list numels;
         padded = padded_size original (nat data_parallel);
         shard_size = padded div nat data_parallel;
         B = nat data_rank * shard_size;
         E = B + shard_size
     in and_then (throw_if (case shard of None \<Rightarrow> True
            | Some t \<Rightarrow> tensor_dim t \<noteq> 1 \<or> \<not> t_contiguous t \<or> numel t \<noteq> shard_size)
          (InvalidArgument (name @ '' requires a contiguous 1D shard with matching size''))) (\<lambda>_.
        Inr \<lparr> fs_shard = shard, fs_original_numel = int original, fs_padded_numel = int padded,
              fs_begin = int B, fs_end = int E, fs_ranges = shard_ranges 0 0 B E numels \<rparr>)))"

definition rank_index_in_group :: "int \<Rightarrow> int list \<Rightarrow> string \<Rightarrow> int result" where
  "rank_index_in_group rank members name =
     (if members = [] then Inl (InvalidArgument (name @ '' requires a non-empty data group''))
      else case find (\<lambda>i. members ! i = rank) [0..<length members] of
          Some i \<Rightarrow> Inr (int i)
        | None \<Rightarrow> Inl (InvalidArgument (name @ '' collectives rank is not in data group'')))"

record shard_group_info =
  gi_data_rank :: int
  gi_data_parallel :: int
  gi_shard_size :: int

definition validate_flat_shard_for_group ::
  "'v flat_shard \<Rightarrow> int \<Rightarrow> int list \<Rightarrow> string \<Rightarrow> shard_group_info result" where
  "validate_flat_shard_for_group s rank members name =
     and_then (rank_index_in_group rank members name) (\<lambda>data_rank.
     let dp = int (length members) in
     case fs_shard s of
       None \<Rightarrow> Inl (InvalidArgument (name @ '' requires a contiguous 1D local shard''))
     | Some t \<Rightarrow>
         and_then (throw_if (tensor_dim t \<noteq> 1 \<or> \<not> t_contiguous t)
           (InvalidArgument (name @ '' requires a contiguous 1D local shard''))) (\<lambda>_.
         and_then (throw_if (fs_original_numel s < 0 \<or> fs_padded_numel s < fs_original_numel s \<or>
             fs_padded_numel s smod dp \<noteq> 0)
           (InvalidArgument (name @ '' invalid shard numel metadata''))) (\<lambda>_.
         let shard_size = fs_padded_numel s sdiv dp in
         and_then (throw_if (int (numel t) \<noteq> shard_size \<or> fs_begin s \<noteq> data_rank * shard_size \<or>
             fs_end s \<noteq> fs_begin s + shard_size)
           (InvalidArgument (name @ '' local shard metadata mismatch''))) (\<lambda>_.
         Inr \<lparr> gi_data_rank = data_rank, gi_data_parallel = dp, gi_shard_size = shard_size \<rparr>))))"

text \<open>A parameter and its gradient, either of which may be undefined.\<close>

type_synonym 'v parameter = "('v tensor \<times> 'v tensor option) option"

fun gradient_tensor_list :: "('v :: zero) conv \<Rightarrow> 'v parameter list \<Rightarrow> bool \<Rightarrow> string \<Rightarrow> 'v tensor list result" where
  "gradient_tensor_list conv [] require_grad name = Inr []"
| "gradient_tensor_list conv (None # ps) require_grad name =
     Inl (InvalidArgument (name @ '' requires defined parameters''))"
| "gradient_tensor_list conv (Some (p, None) # ps) require_grad name =
     (if require_grad then Inl (InvalidArgument (name @ '' missing parameter gradient''))
      else and_then (gradient_tensor_list conv ps require_grad name) (\<lambda>gs.
        Inr (p\<lparr>t_dtype := KFloat32, t_values := replicate (numel p) 0\<rparr> # gs)))"
| "gradient_tensor_list conv (Some (p, Some g) # ps) require_grad name =
     (if numel g \<noteq> numel p then Inl (InvalidArgument (name @ '' gradient size mismatch''))
      else and_then (gradient_tensor_list conv ps require_grad name) (\<lambda>gs.
        Inr (\<lparr> t_device = t_device p, t_dtype = KFloat32, t_shape = t_shape p, t_contiguous = True,
               t_values = map (conv KFloat32) (t_values g) \<rparr> # gs)))"


definition flatten_gradient_shard ::
  "('v :: zero) conv \<Rightarrow> 'v parameter list \<Rightarrow> int \<Rightarrow> int \<Rightarrow> bool \<Rightarrow> 'v flat_shard result" where
  "flatten_gradient_shard conv parameters data_parallel data_rank require_grad =
     and_then (gradient_tensor_list conv parameters require_grad ''flatten_gradient_shard'') (\<lambda>gs.
     flatten_tensor_list_shard conv (map Some gs) data_parallel data_rank KFloat32 ''flatten_gradient_shard'')"

section \<open>Ranges of the flat vector\<close>

fun gradient_range_loop ::
  "'v conv \<Rightarrow> scalar_type \<Rightarrow> nat \<Rightarrow> nat \<Rightarrow> bool \<Rightarrow> string \<Rightarrow> nat \<Rightarrow> 'v parameter list \<Rightarrow> 'v list \<Rightarrow> 'v list result" where
  "gradient_range_loop conv dt begin range_end require_grad name pb [] out = Inr out"
| "gradient_range_loop conv dt begin range_end require_grad name pb (None # ps) out =
     Inl (InvalidArgument (name @ '' requires defined parameters''))"
| "gradient_range_loop conv dt begin range_end require_grad name pb (Some (p, g) # ps) out =
     (let pe = pb + numel p; ob = max pb begin; oe = min pe range_end in
      and_then
        (if ob < oe then
           case g of
             None \<Rightarrow> if require_grad then Inl (InvalidArgument (name @ '' missing parameter gradient'')) else Inr out
           | Some g \<Rightarrow>
               if numel g \<noteq> numel p then Inl (InvalidArgument (name @ '' gradient size mismatch''))
               else Inr (copy_into (ob - begin) (map (conv dt) (narrow (ob - pb) (oe - ob) (t_values g))) out)
         else Inr out) (\<lambda>out'.
        if pe \<ge> range_end then Inr out'
        else gradient_range_loop conv dt begin range_end require_grad name pe ps out'))"

definition flat_gradient_range_padded ::
  "('v :: zero) conv \<Rightarrow> 'v parameter list \<Rightarrow> int \<Rightarrow> int \<Rightarrow> int \<Rightarrow> int \<Rightarrow> device \<Rightarrow> scalar_type \<Rightarrow> bool \<Rightarrow> string \<Rightarrow>
     'v tensor result" where
  "flat_gradient_range_padded conv parameters original padded begin n dev dt require_grad name =
     (if begin < 0 \<or> n < 0 \<or> begin + n > padded
      then Inl (InvalidArgument ''flat_gradient_range_padded out of bounds'')
      else
        let out = replicate (nat n) 0 in
        if begin \<ge> original then Inr (vector dev dt out)
        else and_then (gradient_range_loop conv dt (nat begin) (nat (min (begin + n) original)) require_grad name
               0 parameters out) (\<lambda>out'. Inr (vector dev dt out')))"

definition clear_parameter_gradients :: "'v parameter list \<Rightarrow> 'v parameter list" where
  "clear_parameter_gradients = map (map_option (\<lambda>(p, g). (p, None)))"

section \<open>Writing parameters\<close>

fun apply_range_loop ::
  "'v conv \<Rightarrow> 'v list \<Rightarrow> nat \<Rightarrow> nat \<Rightarrow> nat \<Rightarrow> nat \<Rightarrow> 'v tensor option list \<Rightarrow> 'v tensor option list result" where
  "apply_range_loop conv vs gb ge original pb [] = Inr []"
| "apply_range_loop conv vs gb ge original pb (None # ps) =
     Inl (InvalidArgument ''apply_flat_parameter_range requires contiguous defined parameters'')"
| "apply_range_loop conv vs gb ge original pb (Some p # ps) =
     (if \<not> t_contiguous p
      then Inl (InvalidArgument ''apply_flat_parameter_range requires contiguous defined parameters'')
      else
        let pe = pb + numel p; ob = max pb gb; oe = min (min pe ge) original;
            p' = (if ob < oe
                  then p\<lparr>t_values := copy_into (ob - pb) (map (conv (t_dtype p)) (narrow (ob - gb) (oe - ob) vs))
                         (t_values p)\<rparr>
                  else p)
        in if pe \<ge> ge then Inr (Some p' # ps)
           else and_then (apply_range_loop conv vs gb ge original pe ps) (\<lambda>ps'. Inr (Some p' # ps')))"

definition apply_flat_parameter_range ::
  "'v conv \<Rightarrow> 'v tensor option \<Rightarrow> int \<Rightarrow> int \<Rightarrow> 'v tensor option list \<Rightarrow> 'v tensor option list result" where
  "apply_flat_parameter_range conv flat_slice global_begin original parameters =
     (case flat_slice of
        None \<Rightarrow> Inl (InvalidArgument ''apply_flat_parameter_range requires a contiguous 1D tensor'')
      | Some t \<Rightarrow>
          and_then (throw_if (tensor_dim t \<noteq> 1 \<or> \<not> t_contiguous t)
            (InvalidArgument ''apply_flat_parameter_range requires a contiguous 1D tensor'')) (\<lambda>_.
          and_then (throw_if (global_begin < 0 \<or> original < 0)
            (InvalidArgument ''apply_flat_parameter_range invalid offsets'')) (\<lambda>_.
          if global_begin \<ge> original then Inr parameters
          else apply_range_loop conv (t_values t) (nat global_begin) (nat global_begin + numel t) (nat original) 0
                 parameters)))"

definition apply_shard_range ::
  "'v conv \<Rightarrow> 'v tensor \<Rightarrow> flat_range \<Rightarrow> 'v tensor option list \<Rightarrow> 'v tensor option list result" where
  "apply_shard_range conv shard r parameters =
     and_then (throw_if (r_parameter_index r < 0 \<or> r_parameter_index r \<ge> int (length parameters) \<or>
         r_parameter_offset r < 0 \<or> r_shard_offset r < 0 \<or> r_numel r < 0 \<or>
         r_shard_offset r + r_numel r > int (numel shard))
       (InvalidArgument ''invalid flat parameter shard range'')) (\<lambda>_.
     case parameters ! nat (r_parameter_index r) of
       None \<Rightarrow> Inl (InvalidArgument ''flat parameter shard range exceeds parameter'')
     | Some p \<Rightarrow>
         and_then (throw_if (\<not> t_contiguous p \<or> r_parameter_offset r + r_numel r > int (numel p))
           (InvalidArgument ''flat parameter shard range exceeds parameter'')) (\<lambda>_.
         let source = map (conv (t_dtype p)) (narrow (nat (r_shard_offset r)) (nat (r_numel r)) (t_values shard))
         in Inr (parameters[nat (r_parameter_index r) :=
              Some (p\<lparr>t_values := copy_into (nat (r_parameter_offset r)) source (t_values p)\<rparr>)])))"

definition apply_flat_parameter_shard ::
  "'v conv \<Rightarrow> 'v flat_shard \<Rightarrow> 'v tensor option list \<Rightarrow> 'v tensor option list result" where
  "apply_flat_parameter_shard conv s parameters =
     (case fs_shard s of
        None \<Rightarrow> Inl (InvalidArgument ''apply_flat_parameter_shard requires a contiguous 1D shard tensor'')
      | Some t \<Rightarrow>
          and_then (throw_if (tensor_dim t \<noteq> 1 \<or> \<not> t_contiguous t)
            (InvalidArgument ''apply_flat_parameter_shard requires a contiguous 1D shard tensor'')) (\<lambda>_.
          fold_result (apply_shard_range conv t) (fs_ranges s) parameters))"

fun apply_full_loop :: "'v conv \<Rightarrow> 'v list \<Rightarrow> nat \<Rightarrow> 'v tensor option list \<Rightarrow> 'v tensor option list" where
  "apply_full_loop conv vs offset [] = []"
| "apply_full_loop conv vs offset (None # ps) = None # apply_full_loop conv vs offset ps"
| "apply_full_loop conv vs offset (Some p # ps) =
     Some (p\<lparr>t_values := map (conv (t_dtype p)) (narrow offset (numel p) vs)\<rparr>) #
     apply_full_loop conv vs (offset + numel p) ps"

definition apply_full_flat_parameters ::
  "'v conv \<Rightarrow> 'v tensor option \<Rightarrow> int \<Rightarrow> 'v tensor option list \<Rightarrow> 'v tensor option list result" where
  "apply_full_flat_parameters conv flat original parameters =
     (case flat of
        None \<Rightarrow> Inl (InvalidArgument ''apply_full_flat_parameters requires a contiguous 1D tensor'')
      | Some t \<Rightarrow>
          and_then (throw_if (tensor_dim t \<noteq> 1 \<or> \<not> t_contiguous t)
            (InvalidArgument ''apply_full_flat_parameters requires a contiguous 1D tensor'')) (\<lambda>_.
          and_then (throw_if (original < 0 \<or> original > int (numel t))
            (InvalidArgument ''apply_full_flat_parameters original_numel out of range'')) (\<lambda>_.
          and_then (throw_if (\<exists>p \<in> set parameters. case p of None \<Rightarrow> True | Some q \<Rightarrow> \<not> t_contiguous q)
            (InvalidArgument ''apply_full_flat_parameters requires contiguous defined parameters'')) (\<lambda>_.
          and_then (throw_if (int (sum_list (map (case_option 0 numel) parameters)) \<noteq> original)
            (InvalidArgument ''apply_full_flat_parameters original_numel does not match parameters'')) (\<lambda>_.
          Inr (apply_full_loop conv (t_values t) 0 parameters))))))"

section \<open>Reduce-scatter of gradients\<close>

definition reduce_scatter_flat_gradient_shard ::
  "('v :: zero) conv \<Rightarrow> 'v parameter list \<Rightarrow> 'v collectives \<Rightarrow> nat \<Rightarrow> int list \<Rightarrow> bool \<Rightarrow> bool \<Rightarrow>
     scalar_type option \<Rightarrow> 'v flat_shard result" where
  "reduce_scatter_flat_gradient_shard conv parameters coll call data_group average require_grad comm_dtype =
     (let name = ''reduce_scatter_flat_gradient_shard'' in
      and_then (rank_index_in_group (c_rank coll) data_group name) (\<lambda>data_rank.
      let dp = int (length data_group) in
      if dp = 1 then
        (case comm_dtype of
           None \<Rightarrow> flatten_gradient_shard conv parameters 1 data_rank require_grad
         | Some dt \<Rightarrow>
             and_then (gradient_tensor_list conv parameters require_grad name) (\<lambda>gs.
             flatten_tensor_list_shard conv (map Some gs) 1 data_rank dt name))
      else
        and_then (gradient_tensor_list conv parameters require_grad name) (\<lambda>gs0.
        let gs = (case comm_dtype of None \<Rightarrow> gs0
              | Some dt \<Rightarrow> map (\<lambda>g. g\<lparr>t_dtype := dt, t_contiguous := True, t_values := map (conv dt) (t_values g)\<rparr>) gs0);
            dt = (case comm_dtype of None \<Rightarrow> KFloat32 | Some dt \<Rightarrow> dt)
        in
        and_then (flatten_tensor_list_shard conv (map Some gs) 1 0 dt name) (\<lambda>full.
        case fs_shard full of
          None \<Rightarrow> Inl (InvalidArgument (name @ '' requires a contiguous 1D shard with matching size''))
        | Some flat0 \<Rightarrow>
            let padded = padded_size (nat (fs_original_numel full)) (length data_group);
                flat = (if padded > numel flat0
                  then vector (t_device flat0) (t_dtype flat0) (t_values flat0 @ replicate (padded - numel flat0) 0)
                  else flat0)
            in
            and_then (c_reduce_scatter coll call (contiguous flat) (if average then ReduceMean else ReduceSum) data_group 0)
              (\<lambda>reduced.
            and_then (make_flat_shard_metadata (map (\<lambda>g. int (numel g)) gs) dp data_rank (Some (contiguous reduced)) name)
              (\<lambda>metadata.
            and_then (throw_if (case fs_shard metadata of None \<Rightarrow> True
                 | Some t \<Rightarrow> int (numel t) \<noteq> fs_end metadata - fs_begin metadata)
               (RuntimeError ''reduce_scatter_flat_gradient_shard returned an unexpected shard size'')) (\<lambda>_.
            Inr metadata)))))))"

text \<open>The offsets a bucketed loop visits: \<open>for (o = 0; o < n; o += b)\<close>, with \<open>b\<close> positive.\<close>

function bucket_offsets :: "nat \<Rightarrow> nat \<Rightarrow> nat \<Rightarrow> nat list" where
  "bucket_offsets b n off = (if off < n \<and> 0 < b then off # bucket_offsets b n (off + b) else [])"
  by pat_completeness auto
termination by (relation "measure (\<lambda>(b, n, off). n - off)") auto

declare bucket_offsets.simps [simp del]

fun same_device_numels :: "string \<Rightarrow> device option \<Rightarrow> 'v parameter list \<Rightarrow> (nat list \<times> device option) result" where
  "same_device_numels name dev [] = Inr ([], dev)"
| "same_device_numels name dev (None # ps) = Inl (InvalidArgument (name @ '' requires defined parameters''))"
| "same_device_numels name dev (Some (p, g) # ps) =
     (if dev \<noteq> None \<and> dev \<noteq> Some (t_device p)
      then Inl (InvalidArgument (name @ '' requires parameters on one device''))
      else and_then (same_device_numels name (Some (t_device p)) ps) (\<lambda>(ns, d). Inr (numel p # ns, d)))"

definition reduce_bucket ::
  "('v :: zero) conv \<Rightarrow> 'v parameter list \<Rightarrow> 'v collectives \<Rightarrow> int list \<Rightarrow> reduce_op \<Rightarrow> bool \<Rightarrow> device \<Rightarrow> scalar_type \<Rightarrow>
     nat \<Rightarrow> nat \<Rightarrow> nat \<Rightarrow> nat \<Rightarrow> nat \<times> nat \<Rightarrow> 'v list \<Rightarrow> 'v list result" where
  "reduce_bucket conv parameters coll data_group op require_grad dev dt original padded shard_size bucket = (\<lambda>(call, off) shard.
     let name = ''reduce_scatter_flat_gradient_shard_bucketed'';
         chunk = min bucket (shard_size - off)
     in and_then (map_result (\<lambda>rank. flat_gradient_range_padded conv parameters (int original) (int padded)
            (int (rank * shard_size + off)) (int chunk) dev dt require_grad name) [0..<length data_group]) (\<lambda>segments.
        and_then (c_reduce_scatter coll call (vector dev dt (concat (map t_values segments))) op data_group 0) (\<lambda>reduced.
        and_then (throw_if (tensor_dim reduced \<noteq> 1 \<or> numel reduced \<noteq> chunk)
          (RuntimeError ''reduce_scatter_flat_gradient_shard_bucketed returned an unexpected chunk shape'')) (\<lambda>_.
        Inr (copy_into off (t_values reduced) shard)))))"

text \<open>\<open>fresh\<close> are the unspecified elements of \<^verbatim>\<open>torch::empty\<close>.\<close>

definition reduce_scatter_flat_gradient_shard_bucketed ::
  "(nat \<Rightarrow> ('v :: zero) list) \<Rightarrow> 'v conv \<Rightarrow> 'v parameter list \<Rightarrow> 'v collectives \<Rightarrow> nat \<Rightarrow> int list \<Rightarrow> bool \<Rightarrow> int \<Rightarrow>
     bool \<Rightarrow> scalar_type option \<Rightarrow> 'v flat_shard result" where
  "reduce_scatter_flat_gradient_shard_bucketed fresh conv parameters coll call data_group average bucket_numel
       require_grad comm_dtype =
     (let name = ''reduce_scatter_flat_gradient_shard_bucketed'' in
      and_then (throw_if (bucket_numel \<le> 0)
        (InvalidArgument ''reduce_scatter_flat_gradient_shard_bucketed bucket_numel must be positive'')) (\<lambda>_.
      and_then (rank_index_in_group (c_rank coll) data_group name) (\<lambda>data_rank.
      let dp = length data_group in
      and_then (same_device_numels name None parameters) (\<lambda>(numels, d).
      let dev = (case d of Some d \<Rightarrow> d | None \<Rightarrow> Cpu);
          dt = (case comm_dtype of None \<Rightarrow> KFloat32 | Some dt \<Rightarrow> dt);
          original = sum_list numels;
          padded = padded_size original dp;
          shard_size = padded div dp
      in if dp = 1 then
           and_then (flat_gradient_range_padded conv parameters (int original) (int padded) 0 (int shard_size) dev dt
             require_grad name) (\<lambda>shard.
           make_flat_shard_metadata (map int numels) (int dp) data_rank (Some (contiguous shard)) name)
         else
           let bucket = max 1 (nat bucket_numel div dp);
               offs = bucket_offsets bucket shard_size 0
           in and_then (fold_result (reduce_bucket conv parameters coll data_group
                   (if average then ReduceMean else ReduceSum) require_grad dev dt original padded shard_size bucket)
                 (zip [call..<call + length offs] offs) (fresh shard_size)) (\<lambda>shard.
              make_flat_shard_metadata (map int numels) (int dp) data_rank (Some (vector dev dt shard)) name)))))"

section \<open>All-gather of parameters\<close>

definition all_gather_flat_parameter_shards ::
  "'v flat_shard \<Rightarrow> 'v collectives \<Rightarrow> nat \<Rightarrow> int list \<Rightarrow> 'v tensor result" where
  "all_gather_flat_parameter_shards s coll call data_group =
     and_then (validate_flat_shard_for_group s (c_rank coll) data_group ''all_gather_flat_parameter_shards'') (\<lambda>info.
     let t = the (fs_shard s) in
     if gi_data_parallel info = 1 then Inr (contiguous t)
     else and_then (c_all_gather coll call (contiguous t) data_group 0) (\<lambda>gathered.
       and_then (throw_if (tensor_dim gathered \<noteq> 1 \<or> int (numel gathered) \<noteq> fs_padded_numel s)
         (RuntimeError ''all_gather_flat_parameter_shards returned an unexpected tensor shape'')) (\<lambda>_.
       Inr (contiguous gathered))))"

definition all_gather_apply_flat_parameter_shard ::
  "'v conv \<Rightarrow> 'v flat_shard \<Rightarrow> 'v collectives \<Rightarrow> nat \<Rightarrow> int list \<Rightarrow> 'v tensor option list \<Rightarrow>
     'v tensor option list result" where
  "all_gather_apply_flat_parameter_shard conv s coll call data_group parameters =
     and_then (validate_flat_shard_for_group s (c_rank coll) data_group ''all_gather_apply_flat_parameter_shard'') (\<lambda>info.
     if gi_data_parallel info = 1 then apply_flat_parameter_shard conv s parameters
     else and_then (all_gather_flat_parameter_shards s coll call data_group) (\<lambda>gathered.
       apply_full_flat_parameters conv (Some gathered) (fs_original_numel s) parameters))"

definition gather_bucket ::
  "'v conv \<Rightarrow> 'v flat_shard \<Rightarrow> 'v collectives \<Rightarrow> int list \<Rightarrow> nat \<Rightarrow> nat \<Rightarrow> nat \<times> nat \<Rightarrow>
     'v tensor option list \<Rightarrow> 'v tensor option list result" where
  "gather_bucket conv s coll data_group shard_size bucket = (\<lambda>(call, off) parameters.
     let t = the (fs_shard s);
         chunk = min bucket (shard_size - off);
         dp = length data_group
     in and_then (c_all_gather coll call (vector (t_device t) (t_dtype t) (narrow off chunk (t_values t))) data_group 0)
          (\<lambda>gathered.
        and_then (throw_if (tensor_dim gathered \<noteq> 1 \<or> numel gathered \<noteq> chunk * dp)
          (RuntimeError ''all_gather_apply_flat_parameter_shard_bucketed returned unexpected tensor shape'')) (\<lambda>_.
        fold_result (\<lambda>rank ps. apply_flat_parameter_range conv
            (Some (vector (t_device gathered) (t_dtype gathered) (narrow (rank * chunk) chunk (t_values gathered))))
            (int (rank * shard_size + off)) (fs_original_numel s) ps)
          [0..<dp] parameters)))"

definition all_gather_apply_flat_parameter_shard_bucketed ::
  "'v conv \<Rightarrow> 'v flat_shard \<Rightarrow> 'v collectives \<Rightarrow> nat \<Rightarrow> int list \<Rightarrow> 'v tensor option list \<Rightarrow> int \<Rightarrow>
     'v tensor option list result" where
  "all_gather_apply_flat_parameter_shard_bucketed conv s coll call data_group parameters bucket_numel =
     and_then (throw_if (bucket_numel \<le> 0)
       (InvalidArgument ''all_gather_apply_flat_parameter_shard_bucketed bucket_numel must be positive'')) (\<lambda>_.
     and_then (validate_flat_shard_for_group s (c_rank coll) data_group
       ''all_gather_apply_flat_parameter_shard_bucketed'') (\<lambda>info.
     if gi_data_parallel info = 1 then apply_flat_parameter_shard conv s parameters
     else
       let dp = length data_group;
           shard_size = nat (gi_shard_size info);
           bucket = max 1 (nat bucket_numel div dp);
           offs = bucket_offsets bucket shard_size 0
       in fold_result (gather_bucket conv s coll data_group shard_size bucket)
            (zip [call..<call + length offs] offs) parameters))"

section \<open>Assigning whole parameters to ranks\<close>






section \<open>Shards make up the padded flat vector\<close>

lemma padded_size_props:
  assumes "0 < dp"
  shows "n \<le> padded_size n dp" "padded_size n dp < n + dp" "padded_size n dp mod dp = 0"
    "dp * (padded_size n dp div dp) = padded_size n dp"
proof -
  have "n mod dp < dp" using assms by simp
  then show "n \<le> padded_size n dp" "padded_size n dp < n + dp"
    using assms by (auto simp: padded_size_def Let_def)
  show m: "padded_size n dp mod dp = 0"
  proof (cases "n mod dp = 0")
    case False
    have "n = n div dp * dp + n mod dp" by simp
    then have "n + (dp - n mod dp) = n div dp * dp + dp" using \<open>n mod dp < dp\<close> by linarith
    also have "\<dots> = (n div dp + 1) * dp" by simp
    finally show ?thesis using False by (simp add: padded_size_def Let_def)
  qed (simp add: padded_size_def)
  then show "dp * (padded_size n dp div dp) = padded_size n dp"
    by (metis mult_div_mod_eq add.right_neutral)
qed

lemma shard_parts_overlaps: "concat (shard_parts tb B E ts) = overlaps tb B E (map t_values ts)"
  by (induction ts arbitrary: tb) (auto simp: Let_def overlap_def numel_def narrow_def)

lemma check_tensors_Inr:
  assumes "check_tensors name dev ts = Inr (us, d)"
  shows "ts = map Some us" "\<forall>t \<in> set us. t_contiguous t"
    "(case dev of None \<Rightarrow> True | Some x \<Rightarrow> \<forall>t \<in> set us. t_device t = x)"
    "d = (if us = [] then dev else Some (t_device (hd us)))"
proof -
  have "ts = map Some us \<and> (\<forall>t \<in> set us. t_contiguous t) \<and>
      (case dev of None \<Rightarrow> True | Some x \<Rightarrow> \<forall>t \<in> set us. t_device t = x) \<and>
      d = (if us = [] then dev else Some (t_device (hd us)))"
    using assms
  proof (induction ts arbitrary: dev us d)
    case (Cons t ts)
    then obtain a where t: "t = Some a" by (cases t) auto
    with Cons.prems obtain us' where c: "t_contiguous a" "dev = None \<or> dev = Some (t_device a)"
      "us = a # us'" "check_tensors name (Some (t_device a)) ts = Inr (us', d)"
      by (auto simp: result_simps split: if_splits)
    note ih = Cons.IH [OF this(4)]
    show ?case
    proof (intro conjI)
      show "t # ts = map Some us" using ih by (simp add: t c(3))
      show "\<forall>t \<in> set us. t_contiguous t" using ih c(1) by (simp add: c(3))
      show "case dev of None \<Rightarrow> True | Some x \<Rightarrow> \<forall>t \<in> set us. t_device t = x"
        using ih c(2) by (auto simp: c(3))
      have "t_device (hd us') = t_device a" if "us' \<noteq> []"
        using ih hd_in_set [OF that] by simp
      then show "d = (if us = [] then dev else Some (t_device (hd us)))"
        using ih by (simp add: c(3) split: if_splits)
    qed
  qed (auto split: option.split)
  then show "ts = map Some us" "\<forall>t \<in> set us. t_contiguous t"
    "(case dev of None \<Rightarrow> True | Some x \<Rightarrow> \<forall>t \<in> set us. t_device t = x)"
    "d = (if us = [] then dev else Some (t_device (hd us)))" by blast+
qed

lemma check_tensors_ok:
  assumes "\<And>t. t \<in> set us \<Longrightarrow> t_contiguous t \<and> t_device t = x" "dev = None \<or> dev = Some x"
  shows "check_tensors name dev (map Some us) = Inr (us, if us = [] then dev else Some x)"
  using assms by (induction us arbitrary: dev) auto

definition flat_values :: "'v tensor list \<Rightarrow> 'v list" where
  "flat_values ts = concat (map t_values ts)"

lemma length_flat_values: "length (flat_values ts) = sum_list (map numel ts)"
  by (induction ts) (simp_all add: flat_values_def numel_def)

text \<open>The padded flat vector and its shard number \<open>r\<close>.\<close>

definition padded_flat :: "('v :: zero \<Rightarrow> 'v) \<Rightarrow> nat \<Rightarrow> 'v list \<Rightarrow> 'v list" where
  "padded_flat f dp vs = map f vs @ replicate (padded_size (length vs) dp - length vs) 0"

lemma length_padded_flat: "0 < dp \<Longrightarrow> length (padded_flat f dp vs) = padded_size (length vs) dp"
  using padded_size_props(1) [of dp "length vs"] by (simp add: padded_flat_def)

lemma overlap_padded:
  fixes vs :: "'v :: zero list"
  assumes "b + k \<le> length vs + p"
  shows "overlap 0 b (b + k) vs @ replicate (k - (min (b + k) (length vs) - min b (length vs))) 0 =
    narrow b k (vs @ replicate p 0)"
proof -
  have "drop b (take (b + k) vs) = take k (drop b vs)" by (simp add: drop_take)
  moreover have "min k (p - (b - length vs)) = k \<or> b < length vs"
    using assms by linarith
  ultimately show ?thesis
    using assms by (auto simp: overlap_0 narrow_def min_def)
qed

lemma flatten_tensor_list_shard_Inr:
  fixes conv :: "('v :: zero) conv"
  assumes "flatten_tensor_list_shard conv (map Some ts) (int dp) (int r) dtype name = Inr s"
  defines "k \<equiv> padded_size (length (flat_values ts)) dp div dp"
  shows "r < dp" "\<exists>dev. fs_shard s = Some (vector dev dtype (narrow (r * k) k (padded_flat (conv dtype) dp (flat_values ts))))"
    "fs_original_numel s = int (length (flat_values ts))"
    "fs_padded_numel s = int (padded_size (length (flat_values ts)) dp)"
    "fs_begin s = int (r * k)" "fs_end s = int (r * k + k)"
    "fs_ranges s = shard_ranges 0 0 (r * k) (r * k + k) (map numel ts)"
proof -
  let ?n = "length (flat_values ts)"
  have v: "validate_dp_rank (int dp) (int r) = Inr ()"
    and "\<exists>us d. check_tensors name None (map Some ts) = Inr (us, d)"
    using assms(1) by (auto simp: flatten_tensor_list_shard_def result_simps)
  then obtain d where c: "check_tensors name None (map Some ts) = Inr (ts, d)"
    using check_tensors_Inr(1) by (metis list.inj_map_strong option.inject)
  show r: "r < dp" using v by (simp add: validate_dp_rank_def)
  then have dp: "0 < dp" by simp
  have k: "r * k + k \<le> padded_size ?n dp"
  proof -
    have "r * k + k \<le> dp * k" using r by (metis Suc_leI add.commute mult_Suc mult_le_mono1)
    then show ?thesis using padded_size_props(4) [OF dp, of ?n] by (simp add: k_def)
  qed
  let ?parts = "map (map (conv dtype)) (shard_parts 0 (r * k) (r * k + k) ts)"
  let ?pad = "k - (min (r * k + k) ?n - min (r * k) ?n)"
  let ?parts' = "?parts @ (if ?pad > 0 then [replicate ?pad (0 :: 'v)] else [])"
  have parts: "concat ?parts = map (conv dtype) (overlap 0 (r * k) (r * k + k) (flat_values ts))"
    by (simp add: map_concat [symmetric] shard_parts_overlaps overlaps_concat flat_values_def)
  have cc: "concat ?parts' = narrow (r * k) k (padded_flat (conv dtype) dp (flat_values ts))"
  proof -
    have "concat ?parts' = overlap 0 (r * k) (r * k + k) (map (conv dtype) (flat_values ts)) @ replicate ?pad 0"
      by (simp add: parts overlap_map)
    also have "\<dots> = narrow (r * k) k (padded_flat (conv dtype) dp (flat_values ts))"
      using overlap_padded [of "r * k" k "map (conv dtype) (flat_values ts)" "padded_size ?n dp - ?n"] k
        padded_size_props(1) [OF dp, of ?n]
      by (simp add: padded_flat_def)
    finally show ?thesis .
  qed
  have "length (concat ?parts') = k"
    using k unfolding cc by (simp add: length_narrow length_padded_flat [OF dp])
  then have e: "?parts' = [] \<Longrightarrow> replicate k 0 = concat ?parts'" by auto
  have "flatten_tensor_list_shard conv (map Some ts) (int dp) (int r) dtype name = Inr \<lparr>
      fs_shard = Some (vector (case d of Some d \<Rightarrow> d | None \<Rightarrow> Cpu) dtype
        (if ?parts' = [] then replicate k 0 else concat ?parts')),
      fs_original_numel = int ?n, fs_padded_numel = int (padded_size ?n dp), fs_begin = int (r * k),
      fs_end = int (r * k + k), fs_ranges = shard_ranges 0 0 (r * k) (r * k + k) (map numel ts) \<rparr>"
    unfolding flatten_tensor_list_shard_def v c and_then_Inr Let_def prod.case nat_int
      length_flat_values [symmetric] k_def by (rule refl)
  then have s: "s = \<lparr>
      fs_shard = Some (vector (case d of Some d \<Rightarrow> d | None \<Rightarrow> Cpu) dtype
        (if ?parts' = [] then replicate k 0 else concat ?parts')),
      fs_original_numel = int ?n, fs_padded_numel = int (padded_size ?n dp), fs_begin = int (r * k),
      fs_end = int (r * k + k), fs_ranges = shard_ranges 0 0 (r * k) (r * k + k) (map numel ts) \<rparr>"
    using assms(1) by (simp only: sum.inject)
  have "(if ?parts' = [] then replicate k 0 else concat ?parts') = concat ?parts'"
    using e by presburger
  then show "\<exists>dev. fs_shard s = Some (vector dev dtype (narrow (r * k) k (padded_flat (conv dtype) dp (flat_values ts))))"
    unfolding s cc [symmetric] by (simp only: flat_shard.simps) blast
  show "fs_original_numel s = int ?n" "fs_padded_numel s = int (padded_size ?n dp)"
    "fs_begin s = int (r * k)" "fs_end s = int (r * k + k)"
    "fs_ranges s = shard_ranges 0 0 (r * k) (r * k + k) (map numel ts)"
    by (simp_all add: s)
qed

lemma flatten_tensor_list_shard_returns:
  assumes "r < dp" "\<forall>t \<in> set ts. t_contiguous t \<and> t_device t = x"
  shows "\<exists>s. flatten_tensor_list_shard conv (map Some ts) (int dp) (int r) dtype name = Inr s"
  using assms check_tensors_ok [of ts x None name]
  by (auto simp: flatten_tensor_list_shard_def validate_dp_rank_def throw_if_def Let_def)





section \<open>Writing windows of a flat vector\<close>

text \<open>
  \<open>tensor_write f full S pb t\<close>: the positions of \<open>t\<close>, which starts at \<open>pb\<close>, that lie in
  \<open>S\<close> get their elements from \<open>full\<close>.
\<close>

definition tensor_write :: "('v \<Rightarrow> 'v) \<Rightarrow> 'v list \<Rightarrow> nat set \<Rightarrow> nat \<Rightarrow> 'v tensor \<Rightarrow> 'v tensor" where
  "tensor_write f full S pb t =
     t\<lparr>t_values := map (\<lambda>i. if pb + i \<in> S then f (full ! (pb + i)) else t_values t ! i) [0..<numel t]\<rparr>"

fun writes :: "'v conv \<Rightarrow> 'v list \<Rightarrow> nat set \<Rightarrow> nat \<Rightarrow> 'v tensor list \<Rightarrow> 'v tensor list" where
  "writes conv full S pb [] = []"
| "writes conv full S pb (p # ps) =
     tensor_write (conv (t_dtype p)) full S pb p # writes conv full S (pb + numel p) ps"

lemma tensor_write_sel [simp]:
  "numel (tensor_write f full S pb t) = numel t" "t_dtype (tensor_write f full S pb t) = t_dtype t"
  "t_contiguous (tensor_write f full S pb t) = t_contiguous t"
  by (simp_all add: tensor_write_def numel_def)

lemma tensor_write_twice:
  "tensor_write f full S pb (tensor_write f full T pb t) = tensor_write f full (S \<union> T) pb t"
  by (auto simp: tensor_write_def numel_def)

lemma tensor_write_outside:
  assumes "\<And>i. i < numel t \<Longrightarrow> pb + i \<notin> S"
  shows "tensor_write f full S pb t = t"
proof -
  have "map (\<lambda>i. if pb + i \<in> S then f (full ! (pb + i)) else t_values t ! i) [0..<numel t] = t_values t"
    using assms by (intro nth_equalityI) (auto simp: numel_def)
  then show ?thesis by (simp add: tensor_write_def)
qed

lemma tensor_write_cong:
  assumes "\<And>i. i < numel t \<Longrightarrow> pb + i \<in> S \<longleftrightarrow> pb + i \<in> T"
  shows "tensor_write f full S pb t = tensor_write f full T pb t"
  using assms by (simp add: tensor_write_def)

lemma writes_twice: "writes conv full S pb (writes conv full T pb ps) = writes conv full (S \<union> T) pb ps"
  by (induction ps arbitrary: pb) (simp_all add: tensor_write_twice)

lemma writes_numels [simp]: "map numel (writes conv full S pb ps) = map numel ps"
  by (induction ps arbitrary: pb) simp_all

lemma writes_contiguous: "(\<forall>p \<in> set (writes conv full S pb ps). t_contiguous p) = (\<forall>p \<in> set ps. t_contiguous p)"
  by (induction ps arbitrary: pb) simp_all

lemma writes_outside:
  assumes "\<And>j. j \<in> S \<Longrightarrow> j < pb \<or> pb + sum_list (map numel ps) \<le> j"
  shows "writes conv full S pb ps = ps"
  using assms
proof (induction ps arbitrary: pb)
  case (Cons p ps)
  have "tensor_write (conv (t_dtype p)) full S pb p = p"
    using Cons.prems by (intro tensor_write_outside) force
  moreover have "writes conv full S (pb + numel p) ps = ps"
    using Cons.prems by (intro Cons.IH) force
  ultimately show ?case by simp
qed simp

lemma writes_cong:
  assumes "\<And>j. pb \<le> j \<Longrightarrow> j < pb + sum_list (map numel ps) \<Longrightarrow> j \<in> S \<longleftrightarrow> j \<in> T"
  shows "writes conv full S pb ps = writes conv full T pb ps"
  using assms
proof (induction ps arbitrary: pb)
  case (Cons p ps)
  have "tensor_write (conv (t_dtype p)) full S pb p = tensor_write (conv (t_dtype p)) full T pb p"
    using Cons.prems by (intro tensor_write_cong) simp
  moreover have "writes conv full S (pb + numel p) ps = writes conv full T (pb + numel p) ps"
    using Cons.prems by (intro Cons.IH) simp
  ultimately show ?case by simp
qed simp

text \<open>The code's pieces are such writes.\<close>

definition window_of :: "'v list \<Rightarrow> nat \<Rightarrow> 'v list \<Rightarrow> bool" where
  "window_of full gb vs \<longleftrightarrow> gb + length vs \<le> length full \<and> vs = narrow gb (length vs) full"

lemma window_of_nth: "window_of full gb vs \<Longrightarrow> i < length vs \<Longrightarrow> vs ! i = full ! (gb + i)"
  unfolding window_of_def by (metis nth_narrow)

lemma copy_window:
  fixes t :: "'v tensor"
  assumes w: "window_of full gb vs" and ov: "ob < oe"
    and ob: "ob = max pb gb" and oe: "oe \<le> pb + numel t" "oe \<le> gb + length vs"
    and S: "\<And>i. i < numel t \<Longrightarrow> pb + i \<in> S \<longleftrightarrow> ob \<le> pb + i \<and> pb + i < oe"
  shows "t\<lparr>t_values := copy_into (ob - pb) (map f (narrow (ob - gb) (oe - ob) vs)) (t_values t)\<rparr> =
    tensor_write f full S pb t"
proof -
  have l: "length (map f (narrow (ob - gb) (oe - ob) vs)) = oe - ob"
    using ov ob oe by (simp add: length_narrow)
  have fits: "ob - pb + (oe - ob) \<le> length (t_values t)"
    using ov ob oe by (simp add: numel_def)
  then have fits': "ob - pb + length (map f (narrow (ob - gb) (oe - ob) vs)) \<le> length (t_values t)"
    by (simp only: l)
  have "copy_into (ob - pb) (map f (narrow (ob - gb) (oe - ob) vs)) (t_values t) =
      map (\<lambda>i. if pb + i \<in> S then f (full ! (pb + i)) else t_values t ! i) [0..<numel t]"
  proof (rule nth_equalityI)
    show "length (copy_into (ob - pb) (map f (narrow (ob - gb) (oe - ob) vs)) (t_values t)) =
        length (map (\<lambda>i. if pb + i \<in> S then f (full ! (pb + i)) else t_values t ! i) [0..<numel t])"
      using length_copy_into [OF fits'] by (simp add: numel_def)
  next
    fix i
    assume "i < length (copy_into (ob - pb) (map f (narrow (ob - gb) (oe - ob) vs)) (t_values t))"
    then have i: "i < numel t" "i < length (t_values t)"
      using length_copy_into [OF fits'] by (simp_all add: numel_def)
    note nc = nth_copy_into [OF fits' i(2)]
    show "copy_into (ob - pb) (map f (narrow (ob - gb) (oe - ob) vs)) (t_values t) ! i =
        map (\<lambda>i. if pb + i \<in> S then f (full ! (pb + i)) else t_values t ! i) [0..<numel t] ! i"
    proof (cases "pb + i \<in> S")
      case True
      then have b: "ob \<le> pb + i" "pb + i < oe" using S [OF i(1)] by auto
      have "narrow (ob - gb) (oe - ob) vs ! (i - (ob - pb)) = vs ! (pb + i - gb)"
        using b ov ob oe by (subst nth_narrow) (auto intro!: arg_cong [of _ _ "(!) vs"])
      also have "\<dots> = full ! (pb + i)"
        using b ob oe window_of_nth [OF w, of "pb + i - gb"] by simp
      finally have n: "narrow (ob - gb) (oe - ob) vs ! (i - (ob - pb)) = full ! (pb + i)" .
      have "ob - pb \<le> i" "i < ob - pb + (oe - ob)" "i - (ob - pb) < oe - ob" using b ob by auto
      then have "copy_into (ob - pb) (map f (narrow (ob - gb) (oe - ob) vs)) (t_values t) ! i =
          map f (narrow (ob - gb) (oe - ob) vs) ! (i - (ob - pb))"
        unfolding nc l by (intro if_P conjI)
      also have "\<dots> = f (full ! (pb + i))"
        using n l \<open>i - (ob - pb) < oe - ob\<close> by simp
      finally show ?thesis using True i by simp
    next
      case False
      then have "\<not> (ob \<le> pb + i \<and> pb + i < oe)" using S [OF i(1)] by auto
      then have n: "\<not> (ob - pb \<le> i \<and> i < ob - pb + (oe - ob))" using ob by auto
      show ?thesis unfolding nc l if_not_P [OF n] using False i by simp
    qed
  qed
  then show ?thesis by (simp add: tensor_write_def)
qed

lemma apply_range_loop_writes:
  assumes w: "window_of full gb vs" and c: "\<forall>p \<in> set ps. t_contiguous p"
    and orig: "pb + sum_list (map numel ps) \<le> original"
  shows "apply_range_loop conv vs gb (gb + length vs) original pb (map Some ps) =
    Inr (map Some (writes conv full {gb..<gb + length vs} pb ps))"
  using c orig
proof (induction ps arbitrary: pb)
  case (Cons p ps)
  let ?S = "{gb..<gb + length vs}"
  let ?ob = "max pb gb" and ?oe = "min (min (pb + numel p) (gb + length vs)) original"
  have step: "(if ?ob < ?oe
      then p\<lparr>t_values := copy_into (?ob - pb) (map (conv (t_dtype p)) (narrow (?ob - gb) (?oe - ?ob) vs)) (t_values p)\<rparr>
      else p) = tensor_write (conv (t_dtype p)) full ?S pb p"
  proof (cases "?ob < ?oe")
    case True
    show ?thesis
      unfolding if_P [OF True]
      by (rule copy_window [OF w True refl]) (use Cons.prems in auto)
  next
    case False
    have "tensor_write (conv (t_dtype p)) full ?S pb p = p"
      using False Cons.prems(2) by (intro tensor_write_outside) auto
    then show ?thesis unfolding if_not_P [OF False] by simp
  qed
  have eq: "apply_range_loop conv vs gb (gb + length vs) original pb (map Some (p # ps)) =
      (if pb + numel p \<ge> gb + length vs
       then Inr (Some (tensor_write (conv (t_dtype p)) full ?S pb p) # map Some ps)
       else and_then (apply_range_loop conv vs gb (gb + length vs) original (pb + numel p) (map Some ps))
         (\<lambda>ps'. Inr (Some (tensor_write (conv (t_dtype p)) full ?S pb p) # ps')))"
    unfolding list.map apply_range_loop.simps Let_def step using Cons.prems by simp
  show ?case
  proof (cases "pb + numel p \<ge> gb + length vs")
    case True
    have "writes conv full ?S (pb + numel p) ps = ps"
      using True by (intro writes_outside) auto
    then show ?thesis unfolding eq using True by simp
  next
    case False
    have "apply_range_loop conv vs gb (gb + length vs) original (pb + numel p) (map Some ps) =
        Inr (map Some (writes conv full ?S (pb + numel p) ps))"
      using Cons.prems by (intro Cons.IH) (simp_all add: add.assoc)
    then show ?thesis unfolding eq using False by simp
  qed
qed simp

lemma apply_flat_parameter_range_writes:
  assumes w: "window_of full gb vs" and c: "\<forall>p \<in> set ps. t_contiguous p"
  shows "apply_flat_parameter_range conv (Some (vector dev dt vs)) (int gb) (int (sum_list (map numel ps))) (map Some ps) =
    Inr (map Some (writes conv full {gb..<gb + length vs} 0 ps))"
proof (cases "gb < sum_list (map numel ps)")
  case True
  then show ?thesis
    using apply_range_loop_writes [OF w c, of 0 "sum_list (map numel ps)"]
    by (simp add: apply_flat_parameter_range_def throw_if_def)
next
  case False
  then have "writes conv full {gb..<gb + length vs} 0 ps = ps"
    by (intro writes_outside) auto
  with False show ?thesis by (simp add: apply_flat_parameter_range_def throw_if_def)
qed

lemma apply_full_loop_writes:
  assumes "pb + sum_list (map numel ps) \<le> length full"
  shows "apply_full_loop conv full pb (map Some ps) = map Some (writes conv full UNIV pb ps)"
  using assms
proof (induction ps arbitrary: pb)
  case (Cons p ps)
  have "map (conv (t_dtype p)) (narrow pb (numel p) full) =
      map (\<lambda>i. conv (t_dtype p) (full ! (pb + i))) [0..<numel p]"
    using Cons.prems by (intro nth_equalityI) (simp_all add: length_narrow nth_narrow)
  then show ?case using Cons by (simp add: tensor_write_def add.assoc)
qed simp

lemma apply_full_flat_parameters_writes:
  assumes "sum_list (map numel ps) \<le> length full" "\<forall>p \<in> set ps. t_contiguous p"
  shows "apply_full_flat_parameters conv (Some (vector dev dt full)) (int (sum_list (map numel ps))) (map Some ps) =
    Inr (map Some (writes conv full UNIV 0 ps))"
  using assms apply_full_loop_writes [of 0 ps full conv]
  by (auto simp: apply_full_flat_parameters_def throw_if_def o_def)

lemma apply_shard_ranges_writes:
  assumes w: "window_of full B (t_values sh)" and E: "E = B + numel sh"
    and c: "\<forall>p \<in> set ps. t_contiguous p"
  shows "fold_result (apply_shard_range conv sh) (shard_ranges (length qs) pb B E (map numel ps)) (qs @ map Some ps) =
    Inr (qs @ map Some (writes conv full {B..<E} pb ps))"
  using c
proof (induction ps arbitrary: pb qs)
  case (Cons p ps)
  let ?ob = "max pb B" and ?oe = "min (pb + numel p) E"
  let ?p' = "tensor_write (conv (t_dtype p)) full {B..<E} pb p"
  have IH: "fold_result (apply_shard_range conv sh) (shard_ranges (Suc (length qs)) (pb + numel p) B E (map numel ps))
      ((qs @ [Some ?p']) @ map Some ps) =
    Inr ((qs @ [Some ?p']) @ map Some (writes conv full {B..<E} (pb + numel p) ps))"
    using Cons.IH [of "qs @ [Some ?p']" "pb + numel p"] Cons.prems by simp
  show ?case
  proof (cases "?ob < ?oe")
    case True
    let ?r = "\<lparr> r_parameter_index = int (length qs), r_parameter_offset = int (?ob - pb),
        r_shard_offset = int (?ob - B), r_numel = int (?oe - ?ob) \<rparr>"
    have bounds: "?ob - B + (?oe - ?ob) \<le> numel sh" "?ob - pb + (?oe - ?ob) \<le> numel p"
      using True by (auto simp: E)
    have ib: "\<not> int (numel sh) < int (?ob - B) + int (?oe - ?ob)"
      "\<not> int (numel p) < int (?ob - pb) + int (?oe - ?ob)"
      using bounds unfolding of_nat_add [symmetric] of_nat_less_iff by simp_all
    have cw: "p\<lparr>t_values := copy_into (?ob - pb) (map (conv (t_dtype p)) (narrow (?ob - B) (?oe - ?ob) (t_values sh)))
        (t_values p)\<rparr> = ?p'"
      by (rule copy_window [OF w True refl]) (auto simp: E numel_def)
    have "apply_shard_range conv sh ?r (qs @ Some p # map Some ps) = Inr (qs @ Some ?p' # map Some ps)"
      using ib Cons.prems cw
      by (simp add: apply_shard_range_def throw_if_def list_update_append1 nth_append del: of_nat_diff)
    then show ?thesis using True IH by (simp add: Let_def)
  next
    case False
    have "?p' = p" using False by (intro tensor_write_outside) auto
    then show ?thesis
      unfolding list.map shard_ranges.simps Let_def if_not_P [OF False] using IH by simp
  qed
qed simp

section \<open>Gathering the shards back\<close>

text \<open>
  The shards of a group: rank number \<open>d\<close> holds \<open>vals d\<close>, all of length \<open>k\<close>; \<open>ns\<close> are the
  sizes of the parameters.
\<close>

definition shard_of :: "device \<Rightarrow> scalar_type \<Rightarrow> nat \<Rightarrow> nat \<Rightarrow> nat list \<Rightarrow> (nat \<Rightarrow> 'v list) \<Rightarrow> nat \<Rightarrow> 'v flat_shard" where
  "shard_of dev dt n k ns vals d =
     \<lparr> fs_shard = Some (vector dev dt (vals d)), fs_original_numel = int (sum_list ns),
       fs_padded_numel = int (n * k), fs_begin = int (d * k), fs_end = int (d * k + k),
       fs_ranges = shard_ranges 0 0 (d * k) (d * k + k) ns \<rparr>"

definition shards_ok :: "nat \<Rightarrow> nat \<Rightarrow> nat list \<Rightarrow> (nat \<Rightarrow> 'v list) \<Rightarrow> bool" where
  "shards_ok n k ns vals \<longleftrightarrow> (\<forall>d<n. length (vals d) = k) \<and> sum_list ns \<le> n * k"

lemma rank_index_in_group_nth:
  assumes "distinct members" "d < length members"
  shows "rank_index_in_group (members ! d) members name = Inr (int d)"
proof -
  have "find (\<lambda>i. members ! i = members ! d) [0..<length members] = Some d"
    unfolding find_Some_iff
    using assms by (intro exI [of _ d]) (auto simp: nth_eq_iff_index_eq)
  moreover have "members \<noteq> []" using assms(2) by (cases members) simp_all
  ultimately show ?thesis by (simp add: rank_index_in_group_def)
qed

lemma validate_shard_of:
  assumes "distinct members" "d < length members" "shards_ok (length members) k ns vals"
  shows "validate_flat_shard_for_group (shard_of dev dt (length members) k ns vals d) (members ! d) members name =
    Inr \<lparr> gi_data_rank = int d, gi_data_parallel = int (length members), gi_shard_size = int k \<rparr>"
proof -
  have "0 < length members" using assms(2) by linarith
  then have "int (length members * k) smod int (length members) = 0"
    "int (length members * k) sdiv int (length members) = int k"
    by (simp_all add: smod_nonneg sdiv_nonneg)
  moreover have "\<not> int (length members) * int k < int (sum_list ns)"
    using assms(3) unfolding shards_ok_def of_nat_mult [symmetric] of_nat_less_iff by simp
  ultimately show ?thesis
    using assms by (simp add: validate_flat_shard_for_group_def shard_of_def rank_index_in_group_nth Let_def
        shards_ok_def throw_if_def)
qed

lemma length_concat_vals:
  assumes "\<And>e. e < n \<Longrightarrow> length (vals e) = k"
  shows "length (concat (map vals [0..<n])) = n * k"
  using assms by (induction n) simp_all

lemma narrow_concat_vals:
  assumes "\<And>e. e < n \<Longrightarrow> length (vals e) = k" "r < n" "off + c \<le> k"
  shows "narrow (r * k + off) c (concat (map vals [0..<n])) = narrow off c (vals r)"
proof -
  have "[0..<n] = [0..<r] @ r # [Suc r..<n]"
    using assms(2) upt_add_eq_append [of 0 r "n - r"] by (simp add: upt_conv_Cons)
  then have split: "concat (map vals [0..<n]) = concat (map vals [0..<r]) @ vals r @ concat (map vals [Suc r..<n])"
    by simp
  have "length (concat (map vals [0..<r])) = r * k"
    using assms by (intro length_concat_vals) simp
  then show ?thesis
    using assms(1) [OF assms(2)] assms(3) by (simp add: split narrow_def)
qed

lemma window_concat_vals:
  assumes "\<And>e. e < n \<Longrightarrow> length (vals e) = k" "r < n" "off + c \<le> k"
  shows "window_of (concat (map vals [0..<n])) (r * k + off) (narrow off c (vals r))"
proof -
  have "length (narrow off c (vals r)) = c" using assms by (simp add: length_narrow)
  moreover have "r * k + (off + c) \<le> n * k"
  proof -
    have "r * k + (off + c) \<le> Suc r * k" using assms(3) by simp
    also have "\<dots> \<le> n * k" using assms(2) by (intro mult_le_mono1) simp
    finally show ?thesis .
  qed
  ultimately show ?thesis
    using narrow_concat_vals [OF assms] length_concat_vals [of n vals k] assms(1)
    by (simp add: window_of_def)
qed

text \<open>One bucket: the offset range \<open>[off, off + c)\<close> of every rank's shard is written.\<close>

definition bucket_positions :: "nat \<Rightarrow> nat \<Rightarrow> nat \<Rightarrow> nat \<Rightarrow> nat set" where
  "bucket_positions n k off c = (\<Union>r<n. {r * k + off..<r * k + off + c})"

lemma gather_bucket_ranks:
  fixes vals :: "nat \<Rightarrow> 'v list"
  assumes vals: "\<And>e. e < n \<Longrightarrow> length (vals e) = k" and oc: "off + c \<le> k" and cont: "\<forall>p \<in> set ps. t_contiguous p"
    and m: "m \<le> n" and ps0: "map numel ps0 = map numel ps"
  defines "full \<equiv> concat (map vals [0..<n])" and "gathered \<equiv> concat (map (\<lambda>e. narrow off c (vals e)) [0..<n])"
  shows "fold_result (\<lambda>rank ps. apply_flat_parameter_range conv
      (Some (vector dev dt (narrow (rank * c) c gathered))) (int (rank * k + off)) (int (sum_list (map numel ps0))) ps)
      [0..<m] (map Some (writes conv full S 0 ps)) =
    Inr (map Some (writes conv full (S \<union> bucket_positions m k off c) 0 ps))"
  using m
proof (induction m)
  case 0
  then show ?case by (simp add: bucket_positions_def)
next
  case (Suc m)
  have len: "\<And>e. e < n \<Longrightarrow> length (narrow off c (vals e)) = c"
    using vals oc by (simp add: length_narrow)
  have sl: "narrow (m * c) c gathered = narrow off c (vals m)"
    using narrow_concat_vals [of n "\<lambda>e. narrow off c (vals e)" c m 0 c, OF len] Suc.prems len
    by (simp add: gathered_def) (simp add: narrow_def)
  let ?S = "S \<union> bucket_positions m k off c" and ?ps = "writes conv full (S \<union> bucket_positions m k off c) 0 ps"
  have w: "window_of full (m * k + off) (narrow off c (vals m))"
    using window_concat_vals [of n vals k m off c, OF vals] Suc.prems oc by (simp add: full_def)
  have "apply_flat_parameter_range conv (Some (vector dev dt (narrow off c (vals m)))) (int (m * k + off))
      (int (sum_list (map numel ?ps))) (map Some ?ps) =
    Inr (map Some (writes conv full {m * k + off..<m * k + off + length (narrow off c (vals m))} 0 ?ps))"
    by (rule apply_flat_parameter_range_writes [OF w]) (use cont writes_contiguous in blast)
  moreover have "{m * k + off..<m * k + off + c} \<union> ?S = S \<union> bucket_positions (Suc m) k off c"
    by (auto simp: bucket_positions_def lessThan_Suc)
  ultimately have "apply_flat_parameter_range conv (Some (vector dev dt (narrow (m * c) c gathered))) (int (m * k + off))
      (int (sum_list (map numel ps0))) (map Some ?ps) =
    Inr (map Some (writes conv full (S \<union> bucket_positions (Suc m) k off c) 0 ps))"
    using len [of m] Suc.prems ps0 by (simp add: sl writes_twice)
  then show ?case using Suc by (simp add: fold_result_append)
qed

text \<open>The buckets together cover every shard.\<close>

lemma bucket_offsets_set:
  assumes "0 < b"
  shows "o' \<in> set (bucket_offsets b n off) \<Longrightarrow> off \<le> o' \<and> o' < n"
proof (induction b n off rule: bucket_offsets.induct)
  case (1 b n off)
  then show ?case
    by (subst (asm) bucket_offsets.simps) (auto split: if_splits)
qed

lemma bucket_offsets_cover:
  assumes "0 < b" "off \<le> j" "j < n"
  shows "\<exists>o' \<in> set (bucket_offsets b n off). o' \<le> j \<and> j < o' + min b (n - o')"
  using assms
proof (induction b n off rule: bucket_offsets.induct)
  case (1 b n off)
  show ?case
  proof (cases "j < off + b")
    case True
    then show ?thesis using "1.prems" by (subst bucket_offsets.simps) auto
  next
    case False
    have "off < n \<and> 0 < b" using "1.prems" by auto
    moreover from this "1.IH" "1.prems" False
    have "\<exists>o' \<in> set (bucket_offsets b n (off + b)). o' \<le> j \<and> j < o' + min b (n - o')" by auto
    ultimately show ?thesis by (subst bucket_offsets.simps) auto
  qed
qed

lemma bucket_positions_all:
  assumes "0 < b"
  shows "(\<Union>o' \<in> set (bucket_offsets b k 0). bucket_positions n k o' (min b (k - o'))) = {..<n * k}" (is "?L = ?R")
proof
  show "?L \<subseteq> ?R"
  proof (clarsimp simp: bucket_positions_def)
    fix o' r x
    assume o: "o' \<in> set (bucket_offsets b k 0)" and r: "r < n" and x: "x < r * k + o' + min b (k - o')"
    have "o' < k" using bucket_offsets_set [OF assms o] by simp
    then have "x < Suc r * k" using x by auto
    also have "\<dots> \<le> n * k" using r by (intro mult_le_mono1) simp
    finally show "x < n * k" .
  qed
next
  show "?R \<subseteq> ?L"
  proof
    fix x
    assume x: "x \<in> ?R"
    then have k: "0 < k" by (cases k) auto
    have "x mod k < k" using k by simp
    then obtain o' where o: "o' \<in> set (bucket_offsets b k 0)" "o' \<le> x mod k" "x mod k < o' + min b (k - o')"
      using bucket_offsets_cover [OF assms, of 0 "x mod k" k] by blast
    have "x div k < n" using x by (simp add: less_mult_imp_div_less)
    moreover have "x = x div k * k + x mod k" by simp
    then have "x div k * k + o' \<le> x" "x < x div k * k + o' + min b (k - o')" using o(2,3) by linarith+
    ultimately have "x \<in> bucket_positions n k o' (min b (k - o'))"
      unfolding bucket_positions_def by (intro UN_I [of "x div k"]) auto
    then show "x \<in> ?L" using o(1) by blast
  qed
qed

text \<open>What the ranks of a group pass to the all-gathers of the bucketed loop that starts at call \<open>c0\<close>.\<close>

definition bucket_input :: "nat \<Rightarrow> nat \<Rightarrow> nat \<Rightarrow> (nat \<Rightarrow> 'v list) \<Rightarrow> nat \<Rightarrow> nat \<Rightarrow> 'v list" where
  "bucket_input c0 b k vals c d =
     (let off = bucket_offsets b k 0 ! (c - c0) in narrow off (min b (k - off)) (vals d))"

lemma gather_buckets:
  fixes vals :: "nat \<Rightarrow> 'v list"
  assumes g: "gather_group cs members dev dt {c0..<c0 + length (bucket_offsets b k 0)} (bucket_input c0 b k vals)" and d: "d < length members"
    and vals: "\<And>e. e < length members \<Longrightarrow> length (vals e) = k" and cont: "\<forall>p \<in> set ps. t_contiguous p"
    and b: "0 < b"
  defines "full \<equiv> concat (map vals [0..<length members])" and "n \<equiv> length members"
  assumes m: "m \<le> length (bucket_offsets b k 0)"
  shows "fold_result (gather_bucket conv (shard_of dev dt n k (map numel ps) vals d) (cs d) members k b)
      (zip [c0..<c0 + m] (take m (bucket_offsets b k 0))) (map Some ps) =
    Inr (map Some (writes conv full (\<Union>o' \<in> set (take m (bucket_offsets b k 0)).
      bucket_positions n k o' (min b (k - o'))) 0 ps))"
  using m
proof (induction m)
  case 0
  then show ?case using writes_outside [of "{}" 0 ps conv full] by simp
next
  case (Suc m)
  let ?offs = "bucket_offsets b k 0"
  let ?off = "?offs ! m"
  let ?c = "min b (k - ?off)"
  let ?U = "\<Union>o' \<in> set (take m ?offs). bucket_positions n k o' (min b (k - o'))"
  let ?gathered = "concat (map (\<lambda>e. narrow ?off ?c (vals e)) [0..<length members])"
  have off: "?off < k" using bucket_offsets_set [OF b, of ?off k 0] Suc.prems by simp
  have len: "length (narrow ?off ?c (vals e)) = ?c" if "e < length members" for e
    using vals [OF that] off by (simp add: length_narrow)
  have in0: "bucket_input c0 b k vals (c0 + m) = (\<lambda>e. narrow ?off ?c (vals e))"
    by (simp add: bucket_input_def Let_def fun_eq_iff)
  have cm: "c0 + m \<in> {c0..<c0 + length ?offs}" using Suc.prems by simp
  have ag: "c_all_gather (cs d) (c0 + m) (vector dev dt (narrow ?off ?c (vals d))) members 0 =
      Inr (vector dev dt ?gathered)"
    using gather_group.all_gather [OF g d cm] by (simp only: in0)
  have lg: "length ?gathered = ?c * length members"
    using length_concat_vals [of "length members" "\<lambda>e. narrow ?off ?c (vals e)" ?c] len
    by (simp add: mult.commute)
  have step: "gather_bucket conv (shard_of dev dt n k (map numel ps) vals d) (cs d) members k b (c0 + m, ?off)
      (map Some (writes conv full ?U 0 ps)) =
    Inr (map Some (writes conv full (?U \<union> bucket_positions n k ?off ?c) 0 ps))"
    using gather_bucket_ranks [of "length members" vals k ?off ?c ps "length members" ps conv dev dt ?U,
        OF vals _ cont le_refl refl] off
    by (simp add: gather_bucket_def shard_of_def Let_def ag throw_if_def lg full_def n_def)
  have z: "zip [c0..<c0 + Suc m] (take (Suc m) ?offs) = zip [c0..<c0 + m] (take m ?offs) @ [(c0 + m, ?off)]"
    using Suc.prems by (simp add: take_Suc_conv_app_nth)
  have u: "(\<Union>o' \<in> set (take (Suc m) ?offs). bucket_positions n k o' (min b (k - o'))) =
      ?U \<union> bucket_positions n k ?off ?c"
    using Suc.prems by (simp add: take_Suc_conv_app_nth Un_commute)
  show ?case
    unfolding z fold_result_append u using Suc step by (simp del: upt_Suc)
qed

lemma gathered_apply:
  fixes vals :: "nat \<Rightarrow> 'v list"
  assumes dist: "distinct members" and d: "d < length members"
    and ok: "shards_ok (length members) k (map numel ps) vals" and cont: "\<forall>p \<in> set ps. t_contiguous p"
    and single: "length members = 1"
  shows "apply_flat_parameter_shard conv (shard_of dev dt (length members) k (map numel ps) vals d) (map Some ps) =
    Inr (map Some (writes conv (concat (map vals [0..<length members])) UNIV 0 ps))"
proof -
  have d0: "d = 0" using d single by simp
  have len: "length (vals 0) = k" "sum_list (map numel ps) \<le> k" using ok single by (auto simp: shards_ok_def)
  have "fold_result (apply_shard_range conv (vector dev dt (vals 0))) (shard_ranges 0 0 0 k (map numel ps)) (map Some ps) =
      Inr (map Some (writes conv (vals 0) {0..<k} 0 ps))"
  proof -
    have "window_of (vals 0) 0 (t_values (vector dev dt (vals 0)))" by (simp add: window_of_def narrow_def)
    moreover have "k = 0 + numel (vector dev dt (vals 0))" using len(1) by simp
    ultimately show ?thesis
      using apply_shard_ranges_writes [of "vals 0" 0 "vector dev dt (vals 0)" k ps conv "[]" 0, OF _ _ cont]
      by (simp only: list.size append_Nil)
  qed
  moreover have "writes conv (vals 0) {0..<k} 0 ps = writes conv (vals 0) UNIV 0 ps"
    using len by (intro writes_cong) simp
  ultimately show ?thesis
    using single by (simp add: apply_flat_parameter_shard_def shard_of_def d0 throw_if_def)
qed

lemma all_gather_apply_full:
  fixes vals :: "nat \<Rightarrow> 'v list"
  assumes dist: "distinct members" and d: "d < length members"
    and ok: "shards_ok (length members) k (map numel ps) vals" and cont: "\<forall>p \<in> set ps. t_contiguous p"
    and calls: "gather_group cs members dev dt {c0} (\<lambda>_. vals)"
  shows "all_gather_apply_flat_parameter_shard conv (shard_of dev dt (length members) k (map numel ps) vals d)
      (cs d) c0 members (map Some ps) =
      Inr (apply_full_loop conv (concat (map vals [0..<length members])) 0 (map Some ps))"
proof -
  let ?n = "length members" and ?full = "concat (map vals [0..<length members])"
  have vals: "length (vals e) = k" if "e < ?n" for e using ok that by (simp add: shards_ok_def)
  have lf: "length ?full = ?n * k" using length_concat_vals [OF vals] by simp
  have total: "0 + sum_list (map numel ps) \<le> length ?full" using ok lf by (simp add: shards_ok_def)
  note aw = apply_full_loop_writes [OF total]
  have rank: "c_rank (cs d) = members ! d" using gather_group.member_rank [OF calls d] .
  note val = validate_shard_of [OF dist d ok]
  show ?thesis
  proof (cases "?n = 1")
    case True
    show ?thesis
      unfolding aw using True gathered_apply [OF dist d ok cont True] val
      by (simp add: all_gather_apply_flat_parameter_shard_def
          rank throw_if_def)
  next
    case False
    have ag: "c_all_gather (cs d) c0 (vector dev dt (vals d)) members 0 = Inr (vector dev dt ?full)"
      using gather_group.all_gather [OF calls d, of c0] by simp
    have "all_gather_apply_flat_parameter_shard conv (shard_of dev dt ?n k (map numel ps) vals d) (cs d) c0 members
        (map Some ps) = Inr (map Some (writes conv ?full UNIV 0 ps))"
      using False val ag lf apply_full_flat_parameters_writes [of ps ?full conv dev dt] total cont
      by (simp add: all_gather_apply_flat_parameter_shard_def all_gather_flat_parameter_shards_def rank
          shard_of_def Let_def throw_if_def)
    then show ?thesis using aw by simp
  qed
qed

lemma all_gather_apply_buckets:
  fixes vals :: "nat \<Rightarrow> 'v list"
  assumes dist: "distinct members" and d: "d < length members"
    and ok: "shards_ok (length members) k (map numel ps) vals" and cont: "\<forall>p \<in> set ps. t_contiguous p"
    and bucket: "0 < bucket_numel" "b = max 1 (nat bucket_numel div length members)"
    and calls: "gather_group cs members dev dt {c1..<c1 + length (bucket_offsets b k 0)} (bucket_input c1 b k vals)"
  shows "all_gather_apply_flat_parameter_shard_bucketed conv (shard_of dev dt (length members) k (map numel ps) vals d)
      (cs d) c1 members (map Some ps) bucket_numel =
      Inr (apply_full_loop conv (concat (map vals [0..<length members])) 0 (map Some ps))"
proof -
  let ?n = "length members" and ?full = "concat (map vals [0..<length members])"
  have vals: "length (vals e) = k" if "e < ?n" for e using ok that by (simp add: shards_ok_def)
  have lf: "length ?full = ?n * k" using length_concat_vals [OF vals] by simp
  have total: "0 + sum_list (map numel ps) \<le> length ?full" using ok lf by (simp add: shards_ok_def)
  note aw = apply_full_loop_writes [OF total]
  have rank: "c_rank (cs d) = members ! d" using gather_group.member_rank [OF calls d] .
  note val = validate_shard_of [OF dist d ok]
  show ?thesis
  proof (cases "?n = 1")
    case True
    show ?thesis
      unfolding aw using True gathered_apply [OF dist d ok cont True] val bucket(1)
      by (simp add: all_gather_apply_flat_parameter_shard_bucketed_def
          rank throw_if_def)
  next
    case False
    have "0 < b" using bucket(2) by simp
    note gb = gather_buckets [OF calls d vals cont this le_refl]
    have "writes conv ?full {..<?n * k} 0 ps = writes conv ?full UNIV 0 ps"
      using total lf by (intro writes_cong) simp
    then have "all_gather_apply_flat_parameter_shard_bucketed conv (shard_of dev dt ?n k (map numel ps) vals d)
        (cs d) c1 members (map Some ps) bucket_numel = Inr (map Some (writes conv ?full UNIV 0 ps))"
      using False val gb bucket bucket_positions_all [OF \<open>0 < b\<close>, of ?n k]
      by (simp add: all_gather_apply_flat_parameter_shard_bucketed_def rank Let_def throw_if_def)
    then show ?thesis using aw by simp
  qed
qed

text \<open>
  Claim C12. Gathering the shards and applying them writes every parameter with its own slice of
  the concatenated shards, converted to the parameter's type, and the bucketed routine, which
  gathers a slice of every shard at a time, leaves exactly the same parameters, whatever the
  bucket size.
\<close>

theorem bucketed_all_gather_equals_full:
  fixes vals :: "nat \<Rightarrow> 'v list"
  assumes dist: "distinct members" and d: "d < length members"
    and ok: "shards_ok (length members) k (map numel ps) vals" and cont: "\<forall>p \<in> set ps. t_contiguous p"
    and full_calls: "gather_group cs members dev dt {c0} (\<lambda>_. vals)"
    and bucket: "0 < bucket_numel" "b = max 1 (nat bucket_numel div length members)"
    and bucket_calls: "gather_group cs members dev dt {c1..<c1 + length (bucket_offsets b k 0)} (bucket_input c1 b k vals)"
  shows "all_gather_apply_flat_parameter_shard conv (shard_of dev dt (length members) k (map numel ps) vals d)
      (cs d) c0 members (map Some ps) =
      Inr (apply_full_loop conv (concat (map vals [0..<length members])) 0 (map Some ps)) \<and>
    all_gather_apply_flat_parameter_shard_bucketed conv (shard_of dev dt (length members) k (map numel ps) vals d)
      (cs d) c1 members (map Some ps) bucket_numel =
      Inr (apply_full_loop conv (concat (map vals [0..<length members])) 0 (map Some ps))"
  using all_gather_apply_full [OF dist d ok cont full_calls] all_gather_apply_buckets [OF dist d ok cont bucket bucket_calls]
  by blast

definition pair_vals :: "nat \<Rightarrow> int list" where
  "pair_vals d = (if d = 0 then [1, 2] else [3, 0])"

definition pair_group :: "nat \<Rightarrow> int collectives" where
  "pair_group d = (single_process (\<lambda>t. t))\<lparr>c_rank := int d, c_all_gather := (\<lambda>c x ms dim.
     Inr (vector Cpu KFloat32 (concat (map (if c = 0 then pair_vals else bucket_input 1 1 2 pair_vals c) [0..<2]))))\<rparr>"

theorem bucketed_all_gather_equals_full_witness:
  "all_gather_apply_flat_parameter_shard_bucketed (\<lambda>_ x. x) (shard_of Cpu KFloat32 2 2 [2, 1] pair_vals 0)
     (pair_group 0) 1 [0, 1] [Some (vector Cpu KFloat32 [0, 0]), Some (vector Cpu KFloat32 [0])] 3 =
   Inr [Some (vector Cpu KFloat32 [1, 2]), Some (vector Cpu KFloat32 [3 :: int])]"
proof -
  let ?ps = "[vector Cpu KFloat32 [0, 0], vector Cpu KFloat32 [0 :: int]]"
  have rank: "c_rank (pair_group e) = [0, 1] ! e" if "e < length [0, 1 :: int]" for e
    using that by (auto simp: pair_group_def less_Suc_eq numeral_2_eq_2)
  have g0: "gather_group pair_group [0, 1] Cpu KFloat32 {0} (\<lambda>_. pair_vals)"
    by unfold_locales (simp_all only: rank, simp add: pair_group_def numeral_2_eq_2)
  have g1: "gather_group pair_group [0, 1] Cpu KFloat32 {1..<1 + length (bucket_offsets 1 2 0)}
      (bucket_input 1 1 2 pair_vals)"
    by unfold_locales (simp_all only: rank, auto simp: pair_group_def numeral_2_eq_2)
  have "shards_ok (length [0, 1 :: int]) 2 (map numel ?ps) pair_vals"
    by (simp add: shards_ok_def pair_vals_def)
  moreover have "(1 :: nat) = max 1 (nat 3 div length [0, 1 :: int])" by code_simp
  moreover have "\<forall>p \<in> set ?ps. t_contiguous p" "distinct [0, 1 :: int]" "0 < length [0, 1 :: int]" "(0 :: int) < 3"
    by simp_all
  ultimately have "all_gather_apply_flat_parameter_shard_bucketed (\<lambda>_ x. x)
      (shard_of Cpu KFloat32 (length [0, 1 :: int]) 2 (map numel ?ps) pair_vals 0) (pair_group 0) 1 [0, 1] (map Some ?ps) 3 =
      Inr (apply_full_loop (\<lambda>_ x. x) (concat (map pair_vals [0..<length [0, 1 :: int]])) 0 (map Some ?ps))"
    using bucketed_all_gather_equals_full [of "[0, 1]" 0 2 ?ps pair_vals pair_group Cpu KFloat32 0 3 1 1 "\<lambda>_ x. x"]
      g0 g1 by blast
  then show ?thesis by (simp add: pair_vals_def narrow_def vector_def numel_def numeral_2_eq_2)
qed

section \<open>The greedy assignment is balanced\<close>









section \<open>Bucketed reduce-scatter\<close>

definition grad_values :: "('v :: zero) tensor \<times> 'v tensor option \<Rightarrow> 'v list" where
  "grad_values pg = (case snd pg of None \<Rightarrow> replicate (numel (fst pg)) 0 | Some g \<Rightarrow> t_values g)"

definition flat_grads :: "(('v :: zero) tensor \<times> 'v tensor option) list \<Rightarrow> 'v list" where
  "flat_grads ps = concat (map grad_values ps)"

text \<open>Gradients fit their parameters, which live on one device; none is missing if they are required.\<close>

definition grads_ok :: "bool \<Rightarrow> device \<Rightarrow> (('v :: zero) tensor \<times> 'v tensor option) list \<Rightarrow> bool" where
  "grads_ok require_grad dev ps \<longleftrightarrow>
     (\<forall>(p, g) \<in> set ps. t_contiguous p \<and> t_device p = dev \<and>
        (case g of None \<Rightarrow> \<not> require_grad | Some g \<Rightarrow> numel g = numel p))"

lemma length_grad_values: "grads_ok rq dev [pg] \<Longrightarrow> length (grad_values pg) = numel (fst pg)"
  by (cases pg) (auto simp: grads_ok_def grad_values_def numel_def split: option.splits)

lemma grads_ok_Cons: "grads_ok rq dev (pg # ps) \<longleftrightarrow> grads_ok rq dev [pg] \<and> grads_ok rq dev ps"
  by (auto simp: grads_ok_def)

lemma length_flat_grads: "grads_ok rq dev ps \<Longrightarrow> length (flat_grads ps) = sum_list (map (numel \<circ> fst) ps)"
proof (induction ps)
  case (Cons pg ps)
  then show ?case using length_grad_values [of rq dev pg] grads_ok_Cons [of rq dev pg ps]
    by (simp add: flat_grads_def)
qed (simp add: flat_grads_def)

lemma same_device_numels_ok:
  assumes "grads_ok rq x ps" "dev = None \<or> dev = Some x"
  shows "same_device_numels name dev (map Some ps) = Inr (map (numel \<circ> fst) ps, if ps = [] then dev else Some x)"
  using assms
proof (induction ps arbitrary: dev)
  case (Cons pg ps)
  obtain p g where pg: "pg = (p, g)" by fastforce
  have "t_device p = x" "grads_ok rq x ps" using Cons.prems(1) by (auto simp: grads_ok_def pg)
  then show ?case using Cons.IH [of "Some x"] Cons.prems(2) by (auto simp: pg)
qed simp

lemma gradient_tensor_list_ok:
  assumes "grads_ok rq x ps"
  shows "\<exists>gs. gradient_tensor_list conv (map Some ps) rq name = Inr gs \<and> length gs = length ps \<and>
    (\<forall>g \<in> set gs. t_contiguous g \<and> t_device g = x) \<and> map numel gs = map (numel \<circ> fst) ps \<and>
    (\<forall>f. (\<forall>v \<in> set (flat_grads ps). f (conv KFloat32 v) = h v) \<longrightarrow> f 0 = h 0 \<longrightarrow>
       map f (flat_values gs) = map h (flat_grads ps))"
  using assms
proof (induction ps)
  case (Cons pg ps)
  obtain p g where pg: "pg = (p, g)" by fastforce
  from Cons.prems have ok: "t_contiguous p" "t_device p = x" "grads_ok rq x ps"
    and g: "case g of None \<Rightarrow> \<not> rq | Some g \<Rightarrow> numel g = numel p"
    by (auto simp: grads_ok_def pg)
  obtain gs where gs: "gradient_tensor_list conv (map Some ps) rq name = Inr gs" "length gs = length ps"
    "\<forall>g \<in> set gs. t_contiguous g \<and> t_device g = x" "map numel gs = map (numel \<circ> fst) ps"
    "\<And>f. (\<forall>v \<in> set (flat_grads ps). f (conv KFloat32 v) = h v) \<Longrightarrow> f 0 = h 0 \<Longrightarrow>
       map f (flat_values gs) = map h (flat_grads ps)"
    using Cons.IH [OF ok(3)] by blast
  have fv: "flat_values (t # gs) = t_values t @ flat_values gs" for t by (simp add: flat_values_def)
  have fg: "flat_grads (pg # ps) = grad_values pg @ flat_grads ps" by (simp add: flat_grads_def)
  show ?case
  proof (cases g)
    case None
    let ?t = "p\<lparr>t_dtype := KFloat32, t_values := replicate (numel p) 0\<rparr>"
    have "map f (flat_values (?t # gs)) = map h (flat_grads (pg # ps))"
      if "\<forall>v \<in> set (flat_grads (pg # ps)). f (conv KFloat32 v) = h v" "f 0 = h 0" for f
      using that gs(5) [of f] unfolding fv fg by (simp add: pg None grad_values_def)
    then show ?thesis using None g gs ok
      by (intro exI [of _ "?t # gs"]) (simp add: pg, simp add: numel_def)
  next
    case (Some gr)
    let ?t = "\<lparr> t_device = t_device p, t_dtype = KFloat32, t_shape = t_shape p, t_contiguous = True,
      t_values = map (conv KFloat32) (t_values gr) \<rparr>"
    have "map f (flat_values (?t # gs)) = map h (flat_grads (pg # ps))"
      if "\<forall>v \<in> set (flat_grads (pg # ps)). f (conv KFloat32 v) = h v" "f 0 = h 0" for f
      using that gs(5) [of f] unfolding fv fg by (simp add: pg Some grad_values_def)
    then show ?thesis using Some g gs ok
      by (intro exI [of _ "?t # gs"]) (simp add: pg, simp add: numel_def)
  qed
qed (simp add: flat_grads_def flat_values_def)

text \<open>One range of the padded gradient vector.\<close>

lemma gradient_range_loop_ok:
  fixes conv :: "('v :: zero) conv"
  assumes "grads_ok rq dev ps" "re \<le> begin + length out" "conv dt 0 = 0"
    "\<And>j. j < length out \<Longrightarrow> pb \<le> begin + j \<Longrightarrow> out ! j = 0" "re \<le> pb + length (flat_grads ps)"
  shows "gradient_range_loop conv dt begin re rq name pb (map Some ps) out =
    Inr (map (\<lambda>j. if pb \<le> begin + j \<and> begin + j < re then conv dt (flat_grads ps ! (begin + j - pb)) else out ! j)
      [0..<length out])"
  using assms
proof (induction ps arbitrary: pb out)
  case Nil
  have "map (\<lambda>j. if pb \<le> begin + j \<and> begin + j < re then conv dt (flat_grads [] ! (begin + j - pb)) else out ! j)
      [0..<length out] = out"
    using Nil.prems(5) by (intro nth_equalityI) (auto simp: flat_grads_def)
  then show ?case by (simp add: flat_grads_def)
next
  case (Cons pg ps)
  obtain p g where pg: "pg = (p, g)" by fastforce
  let ?pe = "pb + numel p"
  let ?ob = "max pb begin" and ?oe = "min ?pe re"
  have ok1: "grads_ok rq dev [pg]" and ok2: "grads_ok rq dev ps" using Cons.prems(1) grads_ok_Cons by blast+
  have lg: "length (grad_values pg) = numel p" using length_grad_values [OF ok1] by (simp add: pg)
  have fg: "flat_grads (pg # ps) = grad_values pg @ flat_grads ps" by (simp add: flat_grads_def)
  define out1 where "out1 = map (\<lambda>j. if pb \<le> begin + j \<and> begin + j < ?oe
    then conv dt (grad_values pg ! (begin + j - pb)) else out ! j) [0..<length out]"
  have step: "(if ?ob < ?oe then
       case g of
         None \<Rightarrow> if rq then Inl (InvalidArgument (name @ '' missing parameter gradient'')) else Inr out
       | Some g \<Rightarrow>
           if numel g \<noteq> numel p then Inl (InvalidArgument (name @ '' gradient size mismatch''))
           else Inr (copy_into (?ob - begin) (map (conv dt) (narrow (?ob - pb) (?oe - ?ob) (t_values g))) out)
     else Inr out) = Inr out1"
  proof (cases "?ob < ?oe")
    case F: False
    have "out1 = out" unfolding out1_def using F by (intro nth_equalityI) auto
    then show ?thesis unfolding if_not_P [OF F] by simp
  next
    case T: True
    show ?thesis
    proof (cases g)
      case None
      then have "\<not> rq" using ok1 by (auto simp: grads_ok_def pg)
      moreover have "out1 = out"
        unfolding out1_def
        using None Cons.prems(3,4) by (intro nth_equalityI) (auto simp: grad_values_def pg)
      ultimately show ?thesis unfolding if_P [OF T] by (simp add: None)
    next
      case (Some gr)
      then have n: "numel gr = numel p" using ok1 by (auto simp: grads_ok_def pg)
      let ?src = "map (conv dt) (narrow (?ob - pb) (?oe - ?ob) (t_values gr))"
      have l: "length ?src = ?oe - ?ob" using T n by (simp add: length_narrow numel_def)
      have fits: "?ob - begin + length ?src \<le> length out" unfolding l using T Cons.prems(2) by auto
      have "copy_into (?ob - begin) ?src out = out1"
      proof (rule nth_equalityI)
        show "length (copy_into (?ob - begin) ?src out) = length out1"
          using length_copy_into [OF fits] by (simp add: out1_def)
      next
        fix j
        assume "j < length (copy_into (?ob - begin) ?src out)"
        then have j: "j < length out" using length_copy_into [OF fits] by simp
        note nc = nth_copy_into [OF fits j, unfolded l]
        obtain ob oe where o: "ob = ?ob" "oe = ?oe" by blast
        have of: "pb \<le> ob" "begin \<le> ob" "ob < oe" "oe \<le> ?pe" and mx: "ob \<le> begin + j \<longleftrightarrow> pb \<le> begin + j"
          using T by (auto simp: o)
        have "map (conv dt) (narrow (ob - pb) (oe - ob) (t_values gr)) ! (j - (ob - begin)) =
            conv dt (t_values gr ! (begin + j - pb))"
          if jj: "ob - begin \<le> j" "j < ob - begin + (oe - ob)"
        proof -
          have "ob - pb + (j - (ob - begin)) = begin + j - pb" using jj(1) of(1,2) by linarith
          moreover have "ob - pb + (oe - ob) \<le> length (t_values gr)" using of n unfolding numel_def by linarith
          moreover have "j - (ob - begin) < oe - ob" using jj by linarith
          ultimately show ?thesis using nth_narrow [of "ob - pb" "oe - ob" "t_values gr" "j - (ob - begin)"]
            l [folded o] by simp
        qed
        moreover have "(pb \<le> begin + j \<and> begin + j < oe) = (ob - begin \<le> j \<and> j < ob - begin + (oe - ob))"
          unfolding mx [symmetric] using of by linarith
        moreover have "out1 ! j = (if pb \<le> begin + j \<and> begin + j < oe
            then conv dt (t_values gr ! (begin + j - pb)) else out ! j)"
          using j by (simp add: out1_def Some grad_values_def pg o)
        ultimately show "copy_into (?ob - begin) ?src out ! j = out1 ! j"
          unfolding nc [folded o] o [symmetric] using l [folded o] by (simp del: nth_map)
      qed
      then show ?thesis unfolding if_P [OF T] by (simp add: Some n)
    qed
  qed
  have lo: "length out1 = length out" by (simp add: out1_def)
  have eq: "gradient_range_loop conv dt begin re rq name pb (map Some (pg # ps)) out =
      (if ?pe \<ge> re then Inr out1 else gradient_range_loop conv dt begin re rq name ?pe (map Some ps) out1)"
    unfolding list.map pg gradient_range_loop.simps Let_def step and_then_Inr ..
  show ?case
  proof (cases "?pe \<ge> re")
    case True
    have "out1 = map (\<lambda>j. if pb \<le> begin + j \<and> begin + j < re
        then conv dt (flat_grads (pg # ps) ! (begin + j - pb)) else out ! j) [0..<length out]"
      unfolding out1_def using True by (intro map_cong refl) (auto simp: fg nth_append lg)
    then show ?thesis unfolding eq using True by simp
  next
    case False
    have "gradient_range_loop conv dt begin re rq name ?pe (map Some ps) out1 =
        Inr (map (\<lambda>j. if ?pe \<le> begin + j \<and> begin + j < re then conv dt (flat_grads ps ! (begin + j - ?pe)) else out1 ! j)
          [0..<length out1])"
      using Cons.prems ok2 False
      by (intro Cons.IH) (auto simp: lo fg lg out1_def)
    moreover have "map (\<lambda>j. if ?pe \<le> begin + j \<and> begin + j < re then conv dt (flat_grads ps ! (begin + j - ?pe)) else out1 ! j)
          [0..<length out1] =
        map (\<lambda>j. if pb \<le> begin + j \<and> begin + j < re
          then conv dt (flat_grads (pg # ps) ! (begin + j - pb)) else out ! j) [0..<length out]"
      unfolding lo using False by (intro map_cong refl) (auto simp: fg nth_append lg out1_def)
    ultimately show ?thesis unfolding eq using False by simp
  qed
qed

lemma flat_gradient_range_padded_ok:
  fixes conv :: "('v :: zero) conv"
  assumes ok: "grads_ok rq dev ps" and z: "conv dt 0 = 0" and bc: "b + c \<le> P" and P: "length (flat_grads ps) \<le> P"
  shows "flat_gradient_range_padded conv (map Some ps) (int (length (flat_grads ps))) (int P) (int b) (int c) dev' dt rq name =
    Inr (vector dev' dt (narrow b c (map (conv dt) (flat_grads ps) @ replicate (P - length (flat_grads ps)) 0)))"
proof -
  let ?G = "flat_grads ps"
  let ?pad = "map (conv dt) ?G @ replicate (P - length ?G) 0"
  have lp: "length ?pad = P" using P by simp
  have nth: "narrow b c ?pad ! j = (if b + j < length ?G then conv dt (?G ! (b + j)) else 0)" if "j < c" for j
    using that bc lp by (subst nth_narrow) (auto simp: nth_append)
  have bound: "\<not> (int P < int b + int c)" using bc by linarith
  show ?thesis
  proof (cases "length ?G \<le> b")
    case True
    have "narrow b c ?pad = replicate c 0"
      using True bc lp by (intro nth_equalityI) (simp_all add: length_narrow nth)
    then show ?thesis using True bound by (simp add: flat_gradient_range_padded_def)
  next
    case False
    let ?re = "min (b + c) (length ?G)"
    have "gradient_range_loop conv dt b ?re rq name 0 (map Some ps) (replicate c 0) =
        Inr (map (\<lambda>j. if 0 \<le> b + j \<and> b + j < ?re then conv dt (?G ! (b + j - 0)) else replicate c 0 ! j)
          [0..<length (replicate c (0 :: 'v))])"
      by (rule gradient_range_loop_ok [where conv = conv and dt = dt, OF ok _ z]) simp_all
    moreover have "map (\<lambda>j. if 0 \<le> b + j \<and> b + j < ?re then conv dt (?G ! (b + j - 0)) else replicate c 0 ! j)
          [0..<length (replicate c (0 :: 'v))] = narrow b c ?pad"
      using bc lp by (intro nth_equalityI) (auto simp: length_narrow nth)
    moreover have "nat (min (int b + int c) (int (length ?G))) = ?re" by simp
    ultimately show ?thesis using False bound by (simp add: flat_gradient_range_padded_def)
  qed
qed

text \<open>The input of one bucket, and what its reduction is.\<close>

definition scatter_input :: "nat \<Rightarrow> nat \<Rightarrow> nat \<Rightarrow> nat \<Rightarrow> 'v list \<Rightarrow> 'v list" where
  "scatter_input n k off c F = concat (map (\<lambda>r. narrow (r * k + off) c F) [0..<n])"

lemma row_fits: "r < n \<Longrightarrow> off + c \<le> k \<Longrightarrow> r * k + off + c \<le> n * (k :: nat)"
proof -
  assume "r < n" "off + c \<le> k"
  then have "r * k + off + c \<le> Suc r * k" "Suc r * k \<le> n * k" by (simp, intro mult_le_mono1, simp)
  then show ?thesis by linarith
qed

lemma scatter_input_props:
  assumes "length F = n * k" "off + c \<le> k"
  shows "length (scatter_input n k off c F) = n * c"
    and "r < n \<Longrightarrow> j < c \<Longrightarrow> scatter_input n k off c F ! (r * c + j) = F ! (r * k + off + j)"
proof -
  have len: "\<And>r. r < n \<Longrightarrow> length (narrow (r * k + off) c F) = c"
    using row_fits [of _ n off c k] assms by (simp add: length_narrow)
  show l: "length (scatter_input n k off c F) = n * c"
    unfolding scatter_input_def by (rule length_concat_vals [OF len])
  assume r: "r < n" and j: "j < c"
  have "narrow (r * c + 0) c (scatter_input n k off c F) = narrow 0 c (narrow (r * k + off) c F)"
    unfolding scatter_input_def by (rule narrow_concat_vals [OF len r]) simp_all
  also have "\<dots> = narrow (r * k + off) c F" by (simp add: narrow_def)
  finally have e: "narrow (r * c) c (scatter_input n k off c F) ! j = narrow (r * k + off) c F ! j" by simp
  have "r * c + c \<le> n * c" using row_fits [of r n 0 c c] r by simp
  then show "scatter_input n k off c F ! (r * c + j) = F ! (r * k + off + j)"
    using e j l assms row_fits [OF r assms(2)] by (simp add: nth_narrow)
qed

lemma reduced_bucket:
  assumes "\<And>e. e < n \<Longrightarrow> length (F e) = n * k" "off + c \<le> k" "d < n"
  shows "reduced_chunk reduce n (\<lambda>e. scatter_input n k off c (F e)) c d = narrow off c (reduced_chunk reduce n F k d)"
proof (rule nth_equalityI)
  show "length (reduced_chunk reduce n (\<lambda>e. scatter_input n k off c (F e)) c d) =
      length (narrow off c (reduced_chunk reduce n F k d))"
    using assms(2) by (simp add: reduced_chunk_def length_narrow)
next
  fix j
  assume "j < length (reduced_chunk reduce n (\<lambda>e. scatter_input n k off c (F e)) c d)"
  then have j: "j < c" by (simp add: reduced_chunk_def)
  have "map (\<lambda>e. scatter_input n k off c (F e) ! (d * c + j)) [0..<n] = map (\<lambda>e. F e ! (d * k + (off + j))) [0..<n]"
    using scatter_input_props(2) [OF assms(1) assms(2) assms(3) j] by (simp add: add.assoc)
  then have "reduce (map (\<lambda>e. scatter_input n k off c (F e) ! (d * c + j)) [0..<n]) =
      reduce (map (\<lambda>e. F e ! (d * k + (off + j))) [0..<n])" by (rule arg_cong)
  then show "reduced_chunk reduce n (\<lambda>e. scatter_input n k off c (F e)) c d ! j =
      narrow off c (reduced_chunk reduce n F k d) ! j"
    using j assms(2) by (simp add: reduced_chunk_def nth_narrow)
qed

lemma reduce_bucket_step:
  fixes conv :: "('v :: zero) conv"
  assumes ok: "grads_ok rq x ps" and z: "conv dt 0 = 0" and P: "length (flat_grads ps) \<le> P" "P = length members * k"
    and off: "off < k" and c: "c = min bucket (k - off)" and d: "d < length members"
    and rs: "c_reduce_scatter coll call
        (vector dev dt (scatter_input (length members) k off c (map (conv dt) (flat_grads ps) @ replicate (P - length (flat_grads ps)) 0)))
        op members 0 = Inr (vector dev dt R)" and R: "length R = c"
  shows "reduce_bucket conv (map Some ps) coll members op rq dev dt (length (flat_grads ps)) P k bucket (call, off) shard =
    Inr (copy_into off R shard)"
proof -
  let ?F = "map (conv dt) (flat_grads ps) @ replicate (P - length (flat_grads ps)) 0"
  have oc: "off + c \<le> k" using off c by simp
  have "flat_gradient_range_padded conv (map Some ps) (int (length (flat_grads ps))) (int P)
      (int (r * k + off)) (int c) dev dt rq name = Inr (vector dev dt (narrow (r * k + off) c ?F))"
    if "r \<in> set [0..<length members]" for r name
    using that row_fits [of r "length members" off c k] oc P
    by (intro flat_gradient_range_padded_ok [where conv = conv and dt = dt, OF ok z]) simp_all
  then have m: "map_result (\<lambda>rank. flat_gradient_range_padded conv (map Some ps) (int (length (flat_grads ps))) (int P)
      (int (rank * k + off)) (int c) dev dt rq name) [0..<length members] =
    Inr (map (\<lambda>r. vector dev dt (narrow (r * k + off) c ?F)) [0..<length members])" for name
    by (rule map_result_Inr)
  have "concat (map t_values (map (\<lambda>r. vector dev dt (narrow (r * k + off) c ?F)) [0..<length members])) =
      scatter_input (length members) k off c ?F"
    by (simp add: scatter_input_def o_def)
  then show ?thesis
    unfolding reduce_bucket_def prod.case Let_def c [symmetric] m and_then_Inr using rs R
    by (simp add: throw_if_def)
qed

text \<open>Copying every bucket's piece of \<open>R\<close> gives \<open>R\<close>, whatever the buffer held.\<close>

lemma copy_pieces:
  fixes R shard :: "'v list"
  assumes "length R = k" "length shard = k" "\<And>o'. o' \<in> set offs \<Longrightarrow> o' < k"
  shows "length (fold (\<lambda>off. copy_into off (narrow off (min b (k - off)) R)) offs shard) = k \<and>
    (\<forall>j<k. fold (\<lambda>off. copy_into off (narrow off (min b (k - off)) R)) offs shard ! j =
      (if \<exists>o' \<in> set offs. o' \<le> j \<and> j < o' + min b (k - o') then R ! j else shard ! j))"
  using assms
proof (induction offs arbitrary: shard)
  case (Cons off offs)
  let ?c = "min b (k - off)"
  let ?s = "copy_into off (narrow off ?c R) shard"
  have o: "off < k" using Cons.prems(3) by simp
  have ln: "length (narrow off ?c R) = ?c" using o Cons.prems(1) by (simp add: length_narrow)
  have fits: "off + length (narrow off ?c R) \<le> length shard"
    unfolding ln Cons.prems(2) using o by linarith
  have ls: "length ?s = k" using length_copy_into [OF fits] Cons.prems by simp
  have ns: "?s ! j = (if off \<le> j \<and> j < off + ?c then R ! j else shard ! j)" if "j < k" for j
  proof -
    have j: "j < length shard" using that Cons.prems(2) by simp
    have "narrow off ?c R ! (j - off) = R ! j" if jj: "off \<le> j" "j < off + ?c"
    proof -
      have "off + ?c \<le> length R" unfolding Cons.prems(1) using o by linarith
      moreover have "j - off < ?c" using jj by linarith
      ultimately show ?thesis using nth_narrow [of off ?c R "j - off"] jj by simp
    qed
    then show ?thesis unfolding nth_copy_into [OF fits j] ln by auto
  qed
  note IH = Cons.IH [OF Cons.prems(1) ls]
  show ?case using IH ns Cons.prems(3) by auto
qed simp

text \<open>The inputs of the calls of the bucketed loop that starts at call \<open>c0\<close>.\<close>

definition bucketed_inputs :: "nat \<Rightarrow> nat \<Rightarrow> nat \<Rightarrow> nat \<Rightarrow> (nat \<Rightarrow> 'v list) \<Rightarrow> nat \<Rightarrow> nat \<Rightarrow> 'v list" where
  "bucketed_inputs n k b c0 F call e =
     (let off = bucket_offsets b k 0 ! (call - c0) in scatter_input n k off (min b (k - off)) (F e))"

lemma reduce_buckets:
  fixes conv :: "('v :: zero) conv"
  assumes F: "\<And>e. F e = map (conv dt) (flat_grads (pss e)) @ replicate (P - length (flat_grads (pss e))) 0"
    and ok: "grads_ok rq x (pss d)" and z: "conv dt 0 = 0" and P: "length (flat_grads (pss d)) \<le> P" "P = length members * k"
    and lF: "\<And>e. e < length members \<Longrightarrow> length (F e) = length members * k"
    and d: "d < length members" and b: "0 < b"
    and s: "scatter_group cs members dev dt op reduce {c0..<c0 + length (bucket_offsets b k 0)}
        (bucketed_inputs (length members) k b c0 F)"
  defines "R \<equiv> reduced_chunk reduce (length members) F k d"
  assumes m: "m \<le> length (bucket_offsets b k 0)"
  shows "fold_result (reduce_bucket conv (map Some (pss d)) (cs d) members op rq dev dt (length (flat_grads (pss d))) P k b)
      (zip [c0..<c0 + m] (take m (bucket_offsets b k 0))) shard =
    Inr (fold (\<lambda>off. copy_into off (narrow off (min b (k - off)) R)) (take m (bucket_offsets b k 0)) shard)"
  using m
proof (induction m)
  case 0
  then show ?case by simp
next
  case (Suc m)
  let ?offs = "bucket_offsets b k 0"
  let ?off = "?offs ! m"
  let ?c = "min b (k - ?off)"
  have off: "?off < k" using bucket_offsets_set [OF b, of ?off k 0] Suc.prems by simp
  have oc: "?off + ?c \<le> k" using off by linarith
  have cm: "c0 + m \<in> {c0..<c0 + length ?offs}" using Suc.prems by simp
  have in0: "bucketed_inputs (length members) k b c0 F (c0 + m) = (\<lambda>e. scatter_input (length members) k ?off ?c (F e))"
    by (simp add: bucketed_inputs_def Let_def fun_eq_iff)
  have li: "length (scatter_input (length members) k ?off ?c (F e)) = length members * ?c" if "e < length members" for e
    by (rule scatter_input_props(1) [OF lF [OF that] oc])
  have call: "c_reduce_scatter (cs d) (c0 + m) (vector dev dt (bucketed_inputs (length members) k b c0 F (c0 + m) d)) op members 0 =
      Inr (vector dev dt (reduced_chunk reduce (length members) (bucketed_inputs (length members) k b c0 F (c0 + m)) ?c d))"
    by (rule scatter_group.reduce_scatter [OF s d cm]) (simp add: in0 li)
  have rb: "reduced_chunk reduce (length members) (\<lambda>e. scatter_input (length members) k ?off ?c (F e)) ?c d =
      narrow ?off ?c (reduced_chunk reduce (length members) F k d)"
    by (rule reduced_bucket [OF lF oc d])
  have rs: "c_reduce_scatter (cs d) (c0 + m) (vector dev dt (scatter_input (length members) k ?off ?c (F d))) op members 0 =
      Inr (vector dev dt (narrow ?off ?c R))"
    using call unfolding in0 rb R_def .
  have lR: "length (narrow ?off ?c R) = ?c"
    using oc by (simp add: R_def reduced_chunk_def length_narrow)
  have step: "reduce_bucket conv (map Some (pss d)) (cs d) members op rq dev dt (length (flat_grads (pss d))) P k b (c0 + m, ?off) sh =
      Inr (copy_into ?off (narrow ?off ?c R) sh)" for sh
    by (rule reduce_bucket_step [where conv = conv and dt = dt, OF ok z P off refl d _ lR]) (use rs F in simp)
  have z: "zip [c0..<c0 + Suc m] (take (Suc m) ?offs) = zip [c0..<c0 + m] (take m ?offs) @ [(c0 + m, ?off)]"
    using Suc.prems by (simp add: take_Suc_conv_app_nth)
  show ?case
    unfolding z fold_result_append using Suc step by (simp add: take_Suc_conv_app_nth del: upt_Suc)
qed

lemma buckets_reassemble:
  fixes R :: "'v list"
  assumes "length R = k" "length shard = k" "0 < b"
  shows "fold (\<lambda>off. copy_into off (narrow off (min b (k - off)) R)) (bucket_offsets b k 0) shard = R"
  using copy_pieces [OF assms(1,2), of "bucket_offsets b k 0" b] bucket_offsets_set [OF assms(3), of _ k 0]
    bucket_offsets_cover [OF assms(3), of 0 _ k] assms(1)
  by (intro nth_equalityI) auto

lemma make_flat_shard_metadata_ok:
  assumes d: "d < n" and nn: "\<And>v. v \<in> set ns \<Longrightarrow> 0 \<le> v"
    and k: "padded_size (sum_list (map nat ns)) n div n = k" and vs: "length vs = k"
  shows "make_flat_shard_metadata ns (int n) (int d) (Some (vector dev dt vs)) name =
    Inr (shard_of dev dt n k (map nat ns) (\<lambda>_. vs) d)"
proof -
  have 1: "validate_dp_rank (int n) (int d) = Inr ()" using d by (simp add: validate_dp_rank_def throw_if_def)
  have 2: "throw_if (\<exists>v \<in> set ns. v < 0) e = Inr ()" for e using nn by (auto simp: throw_if_def not_less)
  have 3: "throw_if (tensor_dim (vector dev dt vs) \<noteq> 1 \<or> \<not> t_contiguous (vector dev dt vs) \<or>
      numel (vector dev dt vs) \<noteq> k) e = Inr ()" for e
    using vs by (simp add: throw_if_def)
  have P: "padded_size (sum_list (map nat ns)) n = n * k"
    using padded_size_props(4) [of n "sum_list (map nat ns)"] d k by simp
  have nk: "n * k div n = k" using d by simp
  show ?thesis
    unfolding make_flat_shard_metadata_def 1 2 and_then_Inr Let_def nat_int option.case shard_of_def P nk 3
    by (rule refl)
qed

lemma flatten_device:
  assumes "flatten_tensor_list_shard conv (map Some ts) dp r dt name = Inr s" "\<forall>t \<in> set ts. t_contiguous t \<and> t_device t = x"
    "fs_shard s = Some t"
  shows "t_device t = (if ts = [] then Cpu else x)" "t_dtype t = dt"
proof -
  have c: "check_tensors name None (map Some ts) = Inr (ts, if ts = [] then None else Some x)"
    using assms(2) by (intro check_tensors_ok) simp_all
  have v: "validate_dp_rank dp r = Inr ()"
  proof (cases "validate_dp_rank dp r")
    case (Inl e)
    then show ?thesis using assms(1) by (simp add: flatten_tensor_list_shard_def)
  qed simp
  have "\<exists>vs. t = vector (case if ts = [] then None else Some x of Some d \<Rightarrow> d | None \<Rightarrow> Cpu) dt vs"
    using assms(1,3) unfolding flatten_tensor_list_shard_def v c and_then_Inr Let_def prod.case sum.inject
    by (metis flat_shard.select_convs(1) option.inject)
  then show "t_device t = (if ts = [] then Cpu else x)" "t_dtype t = dt" by auto
qed

lemma flatten_whole:
  fixes conv :: "('v :: zero) conv"
  assumes "\<forall>t \<in> set ts. t_contiguous t \<and> t_device t = x"
  obtains s where "flatten_tensor_list_shard conv (map Some ts) 1 0 dt name = Inr s"
    "fs_shard s = Some (vector (if ts = [] then Cpu else x) dt (map (conv dt) (flat_values ts)))"
    "fs_original_numel s = int (length (flat_values ts))"
proof -
  obtain s where s: "flatten_tensor_list_shard conv (map Some ts) (int 1) (int 0) dt name = Inr s"
    using flatten_tensor_list_shard_returns [of 0 1 ts x conv dt name, OF _ assms] by auto
  note F = flatten_tensor_list_shard_Inr [OF s]
  have p: "padded_size m 1 = m" for m by (simp add: padded_size_def)
  have e: "narrow (0 * (length (flat_values ts) div 1)) (length (flat_values ts) div 1)
      (padded_flat (conv dt) 1 (flat_values ts)) = map (conv dt) (flat_values ts)"
    by (simp add: padded_flat_def p narrow_def)
  obtain dev where d: "fs_shard s = Some (vector dev dt (map (conv dt) (flat_values ts)))"
    using F(2) unfolding p e by blast
  have "dev = (if ts = [] then Cpu else x)" using flatten_device(1) [OF s assms d] by simp
  then show thesis using that s d F(3) by simp
qed

lemma gradient_tensor_list_name:
  "gradient_tensor_list conv ps rq name = Inr gs \<Longrightarrow> gradient_tensor_list conv ps rq name' = Inr gs"
  by (induction conv ps rq name arbitrary: gs rule: gradient_tensor_list.induct) (auto simp: result_simps split: if_splits)

text \<open>The gradients as the unbucketed routine sends them, and what it returns for them.\<close>

lemma sent_gradients:
  fixes conv :: "('v :: zero) conv"
  assumes ok: "grads_ok rq x ps" and z: "conv dt 0 = 0" and idem: "\<And>v. conv dt (conv dt v) = conv dt v"
    and wide: "\<And>v. v \<in> set (flat_grads ps) \<Longrightarrow> conv dt (conv KFloat32 v) = conv dt v"
    and dt: "dt = (case comm of None \<Rightarrow> KFloat32 | Some t \<Rightarrow> t)"
  obtains gs0 gs where "\<And>name. gradient_tensor_list conv (map Some ps) rq name = Inr gs0"
    "gs = (case comm of None \<Rightarrow> gs0
       | Some t \<Rightarrow> map (\<lambda>g. g\<lparr>t_dtype := t, t_contiguous := True, t_values := map (conv t) (t_values g)\<rparr>) gs0)"
    "\<forall>g \<in> set gs. t_contiguous g \<and> t_device g = x" "map numel gs = map (numel \<circ> fst) ps"
    "map (conv dt) (flat_values gs) = map (conv dt) (flat_grads ps)"
proof -
  obtain gs0 where g0: "gradient_tensor_list conv (map Some ps) rq [] = Inr gs0"
    "\<forall>g \<in> set gs0. t_contiguous g \<and> t_device g = x" "map numel gs0 = map (numel \<circ> fst) ps"
    "\<And>f. (\<forall>v \<in> set (flat_grads ps). f (conv KFloat32 v) = conv dt v) \<Longrightarrow> f 0 = conv dt 0 \<Longrightarrow>
       map f (flat_values gs0) = map (conv dt) (flat_grads ps)"
    using gradient_tensor_list_ok [OF ok, of conv "[]" "conv dt"] by blast
  have nm: "gradient_tensor_list conv (map Some ps) rq name = Inr gs0" for name
    using gradient_tensor_list_name [OF g0(1)] .
  define gs where "gs = (case comm of None \<Rightarrow> gs0
       | Some t \<Rightarrow> map (\<lambda>g. g\<lparr>t_dtype := t, t_contiguous := True, t_values := map (conv t) (t_values g)\<rparr>) gs0)"
  have p: "\<forall>g \<in> set gs. t_contiguous g \<and> t_device g = x" "map numel gs = map (numel \<circ> fst) ps"
    using g0(2,3) by (auto simp: gs_def numel_def [abs_def] o_def split: option.splits)
  have "map (conv dt) (flat_values gs) = map (conv dt) (flat_grads ps)"
  proof (cases comm)
    case None
    then show ?thesis using g0(4) [of "conv dt"] dt idem by (simp add: gs_def)
  next
    case (Some t)
    have "flat_values gs = map (conv dt) (flat_values gs0)"
      using Some dt by (simp add: gs_def flat_values_def map_concat o_def)
    then have "map (conv dt) (flat_values gs) = map (\<lambda>v. conv dt (conv dt v)) (flat_values gs0)" by simp
    also have "\<dots> = map (conv dt) (flat_grads ps)" using g0(4) [of "\<lambda>v. conv dt (conv dt v)"] wide idem z by simp
    finally show ?thesis .
  qed
  then show thesis using that nm gs_def p by blast
qed

lemma full_scatter:
  fixes conv :: "('v :: zero) conv"
  assumes dist: "distinct members" and d: "d < length members" and n1: "length members \<noteq> 1"
    and ok: "grads_ok rq x ps" and z: "conv dt 0 = 0" and idem: "\<And>v. conv dt (conv dt v) = conv dt v"
    and wide: "\<And>v. v \<in> set (flat_grads ps) \<Longrightarrow> conv dt (conv KFloat32 v) = conv dt v"
    and dt: "dt = (case comm of None \<Rightarrow> KFloat32 | Some t \<Rightarrow> t)" and rank: "c_rank coll = members ! d"
    and P: "P = padded_size (length (flat_grads ps)) (length members)" and k: "k = P div length members"
    and dev: "dev = (if ps = [] then Cpu else x)"
    and rs: "c_reduce_scatter coll call (vector dev dt
        (map (conv dt) (flat_grads ps) @ replicate (P - length (flat_grads ps)) 0))
        (if average then ReduceMean else ReduceSum) members 0 = Inr (vector dev dt R)" "length R = k"
  shows "reduce_scatter_flat_gradient_shard conv (map Some ps) coll call members average rq comm =
    Inr (shard_of dev dt (length members) k (map (numel \<circ> fst) ps) (\<lambda>_. R) d)"
proof -
  let ?name = "''reduce_scatter_flat_gradient_shard''"
  obtain gs0 gs where g0: "\<And>name. gradient_tensor_list conv (map Some ps) rq name = Inr gs0"
    and gs: "gs = (case comm of None \<Rightarrow> gs0
       | Some t \<Rightarrow> map (\<lambda>g. g\<lparr>t_dtype := t, t_contiguous := True, t_values := map (conv t) (t_values g)\<rparr>) gs0)"
    and cd: "\<forall>g \<in> set gs. t_contiguous g \<and> t_device g = x" and nm: "map numel gs = map (numel \<circ> fst) ps"
    and vs: "map (conv dt) (flat_values gs) = map (conv dt) (flat_grads ps)"
    by (rule sent_gradients [OF ok z idem wide dt]) (assumption, (rule that; assumption))
  have e: "gs = [] \<longleftrightarrow> ps = []" using nm by (metis Nil_is_map_conv)
  have lv: "length (flat_values gs) = length (flat_grads ps)" using vs by (metis length_map)
  obtain s where s: "flatten_tensor_list_shard conv (map Some gs) 1 0 dt ?name = Inr s"
    and fs: "fs_shard s = Some (vector dev dt (map (conv dt) (flat_grads ps)))"
    and on: "fs_original_numel s = int (length (flat_grads ps))"
    using flatten_whole [OF cd, of conv dt ?name] unfolding vs lv e dev by metis
  have rk: "rank_index_in_group (c_rank coll) members ?name = Inr (int d)"
    unfolding rank by (rule rank_index_in_group_nth [OF dist d])
  have Pl: "length (flat_grads ps) \<le> P" unfolding P by (rule padded_size_props(1)) (use d in linarith)
  have flat: "contiguous (if P > length (flat_grads ps)
      then vector dev dt (map (conv dt) (flat_grads ps) @ replicate (P - length (flat_grads ps)) 0)
      else vector dev dt (map (conv dt) (flat_grads ps))) =
      vector dev dt (map (conv dt) (flat_grads ps) @ replicate (P - length (flat_grads ps)) 0)"
    using Pl by (simp add: contiguous_def vector_def)
  have sum: "sum_list (map numel gs) = length (flat_grads ps)"
    using lv by (simp add: flat_values_def length_concat numel_def [abs_def] o_def)
  have md: "make_flat_shard_metadata (map (\<lambda>g. int (numel g)) gs) (int (length members)) (int d) (Some (vector dev dt R)) ?name =
      Inr (shard_of dev dt (length members) k (map (numel \<circ> fst) ps) (\<lambda>_. R) d)"
  proof -
    have m: "map nat (map (\<lambda>g. int (numel g)) gs) = map numel gs" by (simp add: o_def)
    have "make_flat_shard_metadata (map (\<lambda>g. int (numel g)) gs) (int (length members)) (int d) (Some (vector dev dt R)) ?name =
      Inr (shard_of dev dt (length members) k (map nat (map (\<lambda>g. int (numel g)) gs)) (\<lambda>_. R) d)"
      by (rule make_flat_shard_metadata_ok [OF d]) (auto simp: m sum k P rs(2) simp del: map_map)
    then show ?thesis unfolding m nm .
  qed
  have c: "contiguous (vector dev dt R) = vector dev dt R" by (simp add: contiguous_def vector_def)
  have n1': "int (length members) \<noteq> 1" using n1 by simp
  have dt': "(case comm of None \<Rightarrow> KFloat32 | Some t \<Rightarrow> t) = dt" using dt by simp
  have chk: "throw_if (case fs_shard (shard_of dev dt (length members) k (map (numel \<circ> fst) ps) (\<lambda>_. R) d) of None \<Rightarrow> True
      | Some t \<Rightarrow> int (numel t) \<noteq> fs_end (shard_of dev dt (length members) k (map (numel \<circ> fst) ps) (\<lambda>_. R) d) -
          fs_begin (shard_of dev dt (length members) k (map (numel \<circ> fst) ps) (\<lambda>_. R) d)) er = Inr ()" for er
    using rs(2) by (simp add: shard_of_def throw_if_def)
  have nv: "numel (vector dev dt (map (conv dt) (flat_grads ps))) = length (flat_grads ps)" by simp
  show ?thesis
    unfolding reduce_scatter_flat_gradient_shard_def Let_def rk and_then_Inr if_not_P [OF n1'] g0 dt' gs [symmetric] s fs on
      option.case nat_int nv P [symmetric] vector_sel(1-3) flat rs(1) c md chk by (rule refl)
qed
lemma reduced_chunk_cong:
  assumes "\<And>e. e < n \<Longrightarrow> xs e = ys e"
  shows "reduced_chunk reduce n xs k d = reduced_chunk reduce n ys k d"
proof -
  have "map (\<lambda>e. xs e ! i) [0..<n] = map (\<lambda>e. ys e ! i) [0..<n]" for i using assms by simp
  then show ?thesis unfolding reduced_chunk_def by (simp only:)
qed

lemma scatter_group_cong:
  assumes s: "scatter_group cs members dev dt op reduce calls xs"
    and e: "\<And>c e. e < length members \<Longrightarrow> xs c e = ys c e"
  shows "scatter_group cs members dev dt op reduce calls ys"
proof
  fix d c k
  assume d: "d < length members" and c: "c \<in> calls"
    and len: "\<And>e. e < length members \<Longrightarrow> length (ys c e) = length members * k"
  have "reduced_chunk reduce (length members) (xs c) k d = reduced_chunk reduce (length members) (ys c) k d"
    by (rule reduced_chunk_cong) (rule e)
  then show "c_reduce_scatter (cs d) c (vector dev dt (ys c d)) op members 0 =
      Inr (vector dev dt (reduced_chunk reduce (length members) (ys c) k d))"
    using scatter_group.reduce_scatter [OF s d c, of k] len e d by simp
qed (rule scatter_group.member_rank [OF s])

lemma bucketed_scatter:
  fixes conv :: "('v :: zero) conv"
  assumes dist: "distinct members" and d: "d < length members" and n1: "length members \<noteq> 1"
    and ok: "grads_ok rq x (pss d)" and z: "conv dt 0 = 0"
    and dt: "dt = (case comm of None \<Rightarrow> KFloat32 | Some t \<Rightarrow> t)"
    and P: "P = padded_size (length (flat_grads (pss d))) (length members)" and k: "k = P div length members"
    and dev: "dev = (if pss d = [] then Cpu else x)"
    and F: "\<And>e. F e = map (conv dt) (flat_grads (pss e)) @ replicate (P - length (flat_grads (pss e))) 0"
    and lF: "\<And>e. e < length members \<Longrightarrow> length (F e) = length members * k"
    and bucket: "0 < bucket_numel" "b = max 1 (nat bucket_numel div length members)"
    and s: "scatter_group cs members dev dt (if average then ReduceMean else ReduceSum) reduce
        {c1..<c1 + length (bucket_offsets b k 0)} (bucketed_inputs (length members) k b c1 F)"
    and fresh: "length (fresh k) = k"
  shows "reduce_scatter_flat_gradient_shard_bucketed fresh conv (map Some (pss d)) (cs d) c1 members average bucket_numel rq comm =
    Inr (shard_of dev dt (length members) k (map (numel \<circ> fst) (pss d)) (\<lambda>_. reduced_chunk reduce (length members) F k d) d)"
proof -
  let ?name = "''reduce_scatter_flat_gradient_shard_bucketed''" and ?n = "length members"
  let ?R = "reduced_chunk reduce ?n F k d"
  have lR: "length ?R = k" by (simp add: reduced_chunk_def)
  have rk: "rank_index_in_group (c_rank (cs d)) members ?name = Inr (int d)"
    unfolding scatter_group.member_rank [OF s d] by (rule rank_index_in_group_nth [OF dist d])
  have bp: "throw_if (bucket_numel \<le> 0) er = Inr ()" for er using bucket(1) by (simp add: throw_if_def)
  have sn: "same_device_numels ?name None (map Some (pss d)) =
      Inr (map (numel \<circ> fst) (pss d), if pss d = [] then None else Some x)"
    by (rule same_device_numels_ok [OF ok]) simp
  have dv: "(case if pss d = [] then None else Some x of None \<Rightarrow> Cpu | Some y \<Rightarrow> y) = dev" using dev by simp
  have len: "sum_list (map (numel \<circ> fst) (pss d)) = length (flat_grads (pss d))"
    using length_flat_grads [OF ok] by simp
  have n0: "0 < ?n" using d by linarith
  have PP: "length (flat_grads (pss d)) \<le> P" "P = ?n * k"
    unfolding P k using padded_size_props(1,4) [OF n0, of "length (flat_grads (pss d))"] by (simp_all add: mult.commute)
  have b0: "0 < b" using bucket(2) by simp
  have m: "fold_result (reduce_bucket conv (map Some (pss d)) (cs d) members (if average then ReduceMean else ReduceSum) rq dev dt
        (length (flat_grads (pss d))) P k b) (zip [c1..<c1 + length (bucket_offsets b k 0)] (bucket_offsets b k 0)) (fresh k) = Inr ?R"
    using reduce_buckets [where conv = conv and dt = dt and m = "length (bucket_offsets b k 0)" and shard = "fresh k", OF F ok z PP lF d b0 s le_refl]
      buckets_reassemble [OF lR fresh b0] by simp
  have mi: "map nat (map int (map (numel \<circ> fst) (pss d))) = map (numel \<circ> fst) (pss d)" by (simp add: o_def)
  have md: "make_flat_shard_metadata (map int (map (numel \<circ> fst) (pss d))) (int ?n) (int d) (Some (vector dev dt ?R)) ?name =
      Inr (shard_of dev dt ?n k (map (numel \<circ> fst) (pss d)) (\<lambda>_. ?R) d)"
  proof -
    have "make_flat_shard_metadata (map int (map (numel \<circ> fst) (pss d))) (int ?n) (int d) (Some (vector dev dt ?R)) ?name =
        Inr (shard_of dev dt ?n k (map nat (map int (map (numel \<circ> fst) (pss d)))) (\<lambda>_. ?R) d)"
    proof (rule make_flat_shard_metadata_ok [OF d _ _ lR])
      show "padded_size (sum_list (map nat (map int (map (numel \<circ> fst) (pss d))))) ?n div ?n = k"
        unfolding mi len P [symmetric] k [symmetric] ..
    qed auto
    then show ?thesis unfolding mi .
  qed
  have dt': "(case comm of None \<Rightarrow> KFloat32 | Some t \<Rightarrow> t) = dt" using dt by simp
  show ?thesis
    unfolding reduce_scatter_flat_gradient_shard_bucketed_def Let_def bp rk and_then_Inr sn prod.case dv dt' len
      P [symmetric] k [symmetric] if_not_P [OF n1] bucket(2) [symmetric] m md by (rule refl)
qed

lemma reduce_scatter_full:
  fixes conv :: "('v :: zero) conv"
  assumes dist: "distinct members" and d: "d < length members" and n1: "length members \<noteq> 1"
    and ok: "\<And>e. e < length members \<Longrightarrow> grads_ok rq x (pss e) \<and> map (numel \<circ> fst) (pss e) = ns"
    and z: "conv dt 0 = 0" and idem: "\<And>v. conv dt (conv dt v) = conv dt v"
    and wide: "\<And>v. v \<in> set (flat_grads (pss d)) \<Longrightarrow> conv dt (conv KFloat32 v) = conv dt v"
    and dt: "dt = (case comm of None \<Rightarrow> KFloat32 | Some t \<Rightarrow> t)"
    and F: "\<And>e. F e = padded_flat (conv dt) (length members) (flat_grads (pss e))"
    and k: "k = padded_size (sum_list ns) (length members) div length members"
    and dev: "dev = (if ns = [] then Cpu else x)"
    and full_call: "scatter_group cs members dev dt (if average then ReduceMean else ReduceSum) reduce {c0} (\<lambda>_. F)"
  shows "reduce_scatter_flat_gradient_shard conv (map Some (pss d)) (cs d) c0 members average rq comm =
      Inr (shard_of dev dt (length members) k ns (\<lambda>_. reduced_chunk reduce (length members) F k d) d)"
proof -
  let ?n = "length members"
  define P where "P = padded_size (sum_list ns) ?n"
  have okd: "grads_ok rq x (pss e)" and nd: "map (numel \<circ> fst) (pss e) = ns"
    and le: "length (flat_grads (pss e)) = sum_list ns" if "e < ?n" for e
    using ok [OF that] length_flat_grads [of rq x "pss e"] by auto
  have n0: "0 < ?n" using d by linarith
  have Pd: "P = padded_size (length (flat_grads (pss d))) ?n" by (simp add: P_def le [OF d])
  have kP: "k = P div ?n" by (simp add: k P_def)
  have e: "ns = [] \<longleftrightarrow> pss d = []" using nd [OF d] by auto
  have devd: "dev = (if pss d = [] then Cpu else x)" unfolding dev e ..
  have nk: "P = ?n * k" unfolding P_def k using padded_size_props(4) [OF n0, of "sum_list ns"] by (simp add: mult.commute)
  have lF: "length (F e) = ?n * k" if "e < ?n" for e
    unfolding F length_padded_flat [OF n0] le [OF that] P_def [symmetric] by (rule nk)
  define F' where "F' e = (if e < ?n then F e else map (conv dt) (flat_grads (pss e)) @ replicate (P - length (flat_grads (pss e))) 0)" for e
  have F': "F' e = map (conv dt) (flat_grads (pss e)) @ replicate (P - length (flat_grads (pss e))) 0" for e
    using le [of e] by (simp add: F'_def F padded_flat_def P_def)
  have same: "e < ?n \<Longrightarrow> F e = F' e" for e by (simp add: F'_def)
  have rc: "reduced_chunk reduce ?n F' k d = reduced_chunk reduce ?n F k d"
    by (intro reduced_chunk_cong) (simp add: same)
  have Fd: "map (conv dt) (flat_grads (pss d)) @ replicate (P - length (flat_grads (pss d))) 0 = F d"
    using F' [of d] same [OF d] by simp
  have rs: "c_reduce_scatter (cs d) c0 (vector dev dt (map (conv dt) (flat_grads (pss d)) @ replicate (P - length (flat_grads (pss d))) 0))
      (if average then ReduceMean else ReduceSum) members 0 = Inr (vector dev dt (reduced_chunk reduce ?n F k d))"
    unfolding Fd by (rule scatter_group.reduce_scatter [OF full_call d]) (simp_all add: lF)
  show ?thesis
    using full_scatter [where conv = conv and dt = dt, OF dist d n1 okd [OF d] z idem wide dt
      scatter_group.member_rank [OF full_call d] Pd kP devd rs] nd [OF d] by (simp add: reduced_chunk_def)
qed

lemma reduce_scatter_buckets:
  fixes conv :: "('v :: zero) conv"
  assumes dist: "distinct members" and d: "d < length members" and n1: "length members \<noteq> 1"
    and ok: "\<And>e. e < length members \<Longrightarrow> grads_ok rq x (pss e) \<and> map (numel \<circ> fst) (pss e) = ns"
    and z: "conv dt 0 = 0"
    and dt: "dt = (case comm of None \<Rightarrow> KFloat32 | Some t \<Rightarrow> t)"
    and F: "\<And>e. F e = padded_flat (conv dt) (length members) (flat_grads (pss e))"
    and k: "k = padded_size (sum_list ns) (length members) div length members"
    and dev: "dev = (if ns = [] then Cpu else x)"
    and bucket: "0 < bucket_numel" "b = max 1 (nat bucket_numel div length members)"
    and bucket_calls: "scatter_group cs members dev dt (if average then ReduceMean else ReduceSum) reduce
        {c1..<c1 + length (bucket_offsets b k 0)} (bucketed_inputs (length members) k b c1 F)"
    and fresh: "length (fresh k) = k"
  shows "reduce_scatter_flat_gradient_shard_bucketed fresh conv (map Some (pss d)) (cs d) c1 members average bucket_numel rq comm =
      Inr (shard_of dev dt (length members) k ns (\<lambda>_. reduced_chunk reduce (length members) F k d) d)"
proof -
  let ?n = "length members"
  define P where "P = padded_size (sum_list ns) ?n"
  have okd: "grads_ok rq x (pss e)" and nd: "map (numel \<circ> fst) (pss e) = ns"
    and le: "length (flat_grads (pss e)) = sum_list ns" if "e < ?n" for e
    using ok [OF that] length_flat_grads [of rq x "pss e"] by auto
  have n0: "0 < ?n" using d by linarith
  have Pd: "P = padded_size (length (flat_grads (pss d))) ?n" by (simp add: P_def le [OF d])
  have kP: "k = P div ?n" by (simp add: k P_def)
  have e: "ns = [] \<longleftrightarrow> pss d = []" using nd [OF d] by auto
  have devd: "dev = (if pss d = [] then Cpu else x)" unfolding dev e ..
  have nk: "P = ?n * k" unfolding P_def k using padded_size_props(4) [OF n0, of "sum_list ns"] by (simp add: mult.commute)
  have lF: "length (F e) = ?n * k" if "e < ?n" for e
    unfolding F length_padded_flat [OF n0] le [OF that] P_def [symmetric] by (rule nk)
  define F' where "F' e = (if e < ?n then F e else map (conv dt) (flat_grads (pss e)) @ replicate (P - length (flat_grads (pss e))) 0)" for e
  have F': "F' e = map (conv dt) (flat_grads (pss e)) @ replicate (P - length (flat_grads (pss e))) 0" for e
    using le [of e] by (simp add: F'_def F padded_flat_def P_def)
  have same: "e < ?n \<Longrightarrow> F e = F' e" for e by (simp add: F'_def)
  have rc: "reduced_chunk reduce ?n F' k d = reduced_chunk reduce ?n F k d"
    by (intro reduced_chunk_cong) (simp add: same)
  have lF': "e < ?n \<Longrightarrow> length (F' e) = ?n * k" for e using lF same by simp
  have bc: "scatter_group cs members dev dt (if average then ReduceMean else ReduceSum) reduce
        {c1..<c1 + length (bucket_offsets b k 0)} (bucketed_inputs ?n k b c1 F')"
    by (rule scatter_group_cong [OF bucket_calls]) (simp add: bucketed_inputs_def Let_def same)
  show ?thesis
    using bucketed_scatter [where conv = conv and dt = dt and pss = pss and F = F' and cs = cs and fresh = fresh, OF dist d n1 okd [OF d] z dt Pd kP devd F' lF' bucket bc fresh]
    unfolding nd [OF d] rc .
qed

text \<open>
  Claim C14. Reduce-scattering the gradients as a whole and bucket by bucket give each rank the same
  shard: the right slice of the element by element reduction of the padded flat gradients, in the
  communication type. It needs that converting twice is converting once and that the type the
  gradients are first widened to loses nothing the communication type keeps.
\<close>

theorem bucketed_reduce_scatter_equals_full:
  fixes conv :: "('v :: zero) conv"
  assumes dist: "distinct members" and d: "d < length members" and n1: "length members \<noteq> 1"
    and ok: "\<And>e. e < length members \<Longrightarrow> grads_ok rq x (pss e) \<and> map (numel \<circ> fst) (pss e) = ns"
    and z: "conv dt 0 = 0" and idem: "\<And>v. conv dt (conv dt v) = conv dt v"
    and wide: "\<And>v. v \<in> set (flat_grads (pss d)) \<Longrightarrow> conv dt (conv KFloat32 v) = conv dt v"
    and dt: "dt = (case comm of None \<Rightarrow> KFloat32 | Some t \<Rightarrow> t)"
    and F: "\<And>e. F e = padded_flat (conv dt) (length members) (flat_grads (pss e))"
    and k: "k = padded_size (sum_list ns) (length members) div length members"
    and dev: "dev = (if ns = [] then Cpu else x)"
    and full_call: "scatter_group cs members dev dt (if average then ReduceMean else ReduceSum) reduce {c0} (\<lambda>_. F)"
    and bucket: "0 < bucket_numel" "b = max 1 (nat bucket_numel div length members)"
    and bucket_calls: "scatter_group cs members dev dt (if average then ReduceMean else ReduceSum) reduce
        {c1..<c1 + length (bucket_offsets b k 0)} (bucketed_inputs (length members) k b c1 F)"
    and fresh: "length (fresh k) = k"
  shows "reduce_scatter_flat_gradient_shard conv (map Some (pss d)) (cs d) c0 members average rq comm =
      Inr (shard_of dev dt (length members) k ns (\<lambda>_. reduced_chunk reduce (length members) F k d) d) \<and>
    reduce_scatter_flat_gradient_shard_bucketed fresh conv (map Some (pss d)) (cs d) c1 members average bucket_numel rq comm =
      Inr (shard_of dev dt (length members) k ns (\<lambda>_. reduced_chunk reduce (length members) F k d) d)"
  using reduce_scatter_full [where conv = conv and dt = dt and pss = pss, OF dist d n1 ok z idem wide dt F k dev full_call]
    reduce_scatter_buckets [where conv = conv and dt = dt and pss = pss and fresh = fresh, OF dist d n1 ok z dt F k dev bucket bucket_calls fresh]
  by blast

definition pair_grads :: "nat \<Rightarrow> (int tensor \<times> int tensor option) list" where
  "pair_grads e = [(vector Cpu KFloat32 [7, 8], Some (vector Cpu KFloat32 [int e + 1, 10])),
     (vector Cpu KFloat32 [9], None)]"

definition pair_flat :: "nat \<Rightarrow> int list" where
  "pair_flat e = [int e + 1, 10, 0, 0]"

definition pair_reduce :: "nat \<Rightarrow> int collectives" where
  "pair_reduce d = (single_process (\<lambda>t. t))\<lparr>c_rank := int d, c_reduce_scatter := (\<lambda>c x op ms dim.
     Inr (vector Cpu KFloat32 (reduced_chunk sum_list 2
       (if c = 0 then pair_flat else bucketed_inputs 2 2 1 1 pair_flat c) (length (t_values x) div 2) d)))\<rparr>"

theorem bucketed_reduce_scatter_equals_full_witness:
  "reduce_scatter_flat_gradient_shard_bucketed (\<lambda>m. replicate m 5) (\<lambda>_ x. x) (map Some (pair_grads 0)) (pair_reduce 0) 1
     [0, 1] False 3 False None = Inr (shard_of Cpu KFloat32 2 2 [2, 1] (\<lambda>_. [3, 20]) 0)"
proof -
  let ?m = "[0, 1 :: int]"
  have rank: "c_rank (pair_reduce e) = ?m ! e" if "e < length ?m" for e
    using that by (auto simp: pair_reduce_def less_Suc_eq numeral_2_eq_2)
  have l2: "length ?m = 2" by simp
  have g0: "scatter_group pair_reduce ?m Cpu KFloat32 (if False then ReduceMean else ReduceSum) sum_list {0} (\<lambda>_. pair_flat)"
    by unfold_locales (simp_all only: rank l2, simp add: pair_reduce_def pair_flat_def)
  have g1: "scatter_group pair_reduce ?m Cpu KFloat32 (if False then ReduceMean else ReduceSum) sum_list
      {1..<1 + length (bucket_offsets 1 2 0)} (bucketed_inputs (length ?m) 2 1 1 pair_flat)"
    unfolding l2 by unfold_locales (simp_all only: rank l2, auto simp: pair_reduce_def)
  have ps: "padded_size (Suc (Suc (Suc 0))) (Suc (Suc 0)) = 4" by code_simp
  have ok: "grads_ok False Cpu (pair_grads e) \<and> map (numel \<circ> fst) (pair_grads e) = [2, 1]" for e
    by (simp add: grads_ok_def pair_grads_def)
  have F: "pair_flat e = padded_flat (\<lambda>x. x) (length ?m) (flat_grads (pair_grads e))" for e
    by (simp add: pair_flat_def padded_flat_def flat_grads_def pair_grads_def grad_values_def ps l2 numeral_2_eq_2)
  have k: "2 = padded_size (sum_list [2, 1]) (length ?m) div length ?m" by code_simp
  have b: "(1 :: nat) = max 1 (nat 3 div length ?m)" by code_simp
  have "reduce_scatter_flat_gradient_shard_bucketed (\<lambda>m. replicate m 5) (\<lambda>_ x. x) (map Some (pair_grads 0)) (pair_reduce 0) 1
     ?m False 3 False None =
     Inr (shard_of Cpu KFloat32 (length ?m) 2 [2, 1] (\<lambda>_. reduced_chunk sum_list (length ?m) pair_flat 2 0) 0)"
    by (rule bucketed_reduce_scatter_equals_full [where conv = "\<lambda>_ x. x" and pss = pair_grads and x = Cpu and ?c0.0 = 0,
      OF _ _ _ ok _ _ _ _ F k _ g0 _ b g1, THEN conjunct2]) simp_all
  moreover have "reduced_chunk sum_list (length ?m) pair_flat 2 0 = [3, 20]" by code_simp
  ultimately show ?thesis unfolding l2 by simp
qed

end
