(* ===== verification/Text_Encoding.thy ===== *)
theory Text_Encoding
  imports Bytes
begin

text \<open>
  The text encodings of \<^verbatim>\<open>src/text/hf_bpe_tokenizer.cc\<close>: UTF-8 of 32-bit code points
  (\<^verbatim>\<open>utf8_append\<close>, \<^verbatim>\<open>utf8_decode\<close>, with the code's bit operations on
  words), the table \<^verbatim>\<open>build_byte_to_unicode_table\<close> that gives each byte a printable
  code point, its inverse \<^verbatim>\<open>uc_to_byte\<close>, and the mapping of a text to the string the
  vocabulary is written in and back. Decoding inverts encoding on code points of at most 21 bits;
  the table is injective; a text comes back from its codes, and ASCII strings from themselves.
\<close>

unbundle bit_operations_syntax

section \<open>Bits of bytes and code points\<close>

definition to_u8 :: "32 word \<Rightarrow> byte" where
  "to_u8 w = ucast w"

definition to_u32 :: "byte \<Rightarrow> 32 word" where
  "to_u32 b = ucast b"

lemma bit_to_u8: "bit (to_u8 w) n \<longleftrightarrow> n < 8 \<and> bit w n"
  by (simp add: to_u8_def bit_simps)

lemma bit_to_u32: "bit (to_u32 b) n \<longleftrightarrow> bit b n"
  by (auto simp: to_u32_def bit_simps dest: bit_imp_le_length)

lemma bit_consts:
  "(0x3F :: 32 word) = mask 6" "(0x1F :: 32 word) = mask 5" "(0x0F :: 32 word) = mask 4" "(0x07 :: 32 word) = mask 3"
  "(0x80 :: 32 word) = push_bit 7 (mask 1)" "(0xC0 :: 32 word) = push_bit 6 (mask 2)"
  "(0xE0 :: 32 word) = push_bit 5 (mask 3)" "(0xF0 :: 32 word) = push_bit 4 (mask 4)"
  "(0xF8 :: 32 word) = push_bit 3 (mask 5)"
  by (simp_all add: mask_eq_exp_minus_1)

lemma le_bits:
  assumes "(w :: 32 word) \<le> mask k" "bit w n"
  shows "n < k"
proof -
  have "unat w \<le> unat (mask k :: 32 word)" using assms(1) by (simp add: word_le_nat_alt)
  also have "(mask k :: 32 word) = word_of_nat (mask k)" by (rule of_nat_mask_eq [symmetric])
  also have "unat \<dots> \<le> mask k" unfolding unat_of_nat by (rule mod_less_eq_dividend)
  finally have "unat w < 2 ^ k" using mask_nat_less_exp [of k] by linarith
  then have "take_bit k (unat w) = unat w" by (simp add: take_bit_nat_eq_self_iff)
  moreover have "bit (unat w) n" using assms(2) bit_imp_le_length [OF assms(2)] by (simp add: bit_unsigned_iff)
  ultimately show ?thesis by (metis bit_take_bit_iff)
qed

lemmas bits = bit_or_iff bit_and_iff bit_push_bit_iff bit_drop_bit_eq bit_mask_iff bit_to_u8 bit_to_u32 o_def
  bit_take_bit_iff

lemma continuation_byte: "to_u32 (to_u8 (0x80 OR (w AND 0x3F))) AND 0x3F = take_bit 6 w"
  unfolding bit_consts by (rule bit_word_eqI) (unfold bits, auto)

lemma lead_byte:
  "w \<le> 0x1F \<Longrightarrow> to_u32 (to_u8 (0xC0 OR w)) AND 0x1F = w"
  "w \<le> 0x0F \<Longrightarrow> to_u32 (to_u8 (0xE0 OR w)) AND 0x0F = w"
  "w \<le> 0x07 \<Longrightarrow> to_u32 (to_u8 (0xF0 OR w)) AND 0x07 = w"
  unfolding bit_consts by (rule bit_word_eqI, unfold bits, auto dest: le_bits)+

lemma join6: "push_bit 6 (drop_bit 6 w) OR take_bit 6 w = (w :: 32 word)"
  by (rule bit_word_eqI) (unfold bits, auto)

section \<open>UTF-8\<close>

definition utf8_bytes :: "32 word \<Rightarrow> byte list" where
  "utf8_bytes cp =
     (if cp \<le> 0x7F then [to_u8 cp]
      else if cp \<le> 0x7FF then [to_u8 (0xC0 OR drop_bit 6 cp), to_u8 (0x80 OR (cp AND 0x3F))]
      else if cp \<le> 0xFFFF then
        [to_u8 (0xE0 OR drop_bit 12 cp), to_u8 (0x80 OR (drop_bit 6 cp AND 0x3F)), to_u8 (0x80 OR (cp AND 0x3F))]
      else [to_u8 (0xF0 OR drop_bit 18 cp), to_u8 (0x80 OR (drop_bit 12 cp AND 0x3F)),
            to_u8 (0x80 OR (drop_bit 6 cp AND 0x3F)), to_u8 (0x80 OR (cp AND 0x3F))])"

definition utf8_append :: "32 word \<Rightarrow> string \<Rightarrow> string" where
  "utf8_append cp out = out @ map char_of_byte (utf8_bytes cp)"

text \<open>The loop over the rest of the string: the code points read, and whether it ended well.\<close>

fun utf8_loop :: "byte list \<Rightarrow> 32 word list \<Rightarrow> 32 word list \<times> bool" where
  "utf8_loop [] out = (out, True)"
| "utf8_loop (c # s) out =
     (let b0 = to_u32 c in
      if b0 < 0x80 then utf8_loop s (out @ [b0])
      else if b0 AND 0xE0 = 0xC0 \<and> 1 \<le> length s then
        utf8_loop (drop 1 s) (out @ [push_bit 6 (b0 AND 0x1F) OR (to_u32 (s ! 0) AND 0x3F)])
      else if b0 AND 0xF0 = 0xE0 \<and> 2 \<le> length s then
        utf8_loop (drop 2 s) (out @ [push_bit 12 (b0 AND 0x0F) OR push_bit 6 (to_u32 (s ! 0) AND 0x3F) OR
          (to_u32 (s ! 1) AND 0x3F)])
      else if b0 AND 0xF8 = 0xF0 \<and> 3 \<le> length s then
        utf8_loop (drop 3 s) (out @ [push_bit 18 (b0 AND 0x07) OR push_bit 12 (to_u32 (s ! 0) AND 0x3F) OR
          push_bit 6 (to_u32 (s ! 1) AND 0x3F) OR (to_u32 (s ! 2) AND 0x3F)])
      else (out, False))"

declare utf8_loop.simps(2) [simp del]

definition utf8_decode :: "string \<Rightarrow> 32 word list \<times> bool" where
  "utf8_decode s = utf8_loop (map byte_of_char s) []"

lemma lead_byte_tests:
  "w \<le> 0x7F \<Longrightarrow> to_u32 (to_u8 w) = w"
  "w \<le> 0x1F \<Longrightarrow> \<not> to_u32 (to_u8 (0xC0 OR w)) < 0x80" "w \<le> 0x1F \<Longrightarrow> to_u32 (to_u8 (0xC0 OR w)) AND 0xE0 = 0xC0"
  "w \<le> 0x0F \<Longrightarrow> \<not> to_u32 (to_u8 (0xE0 OR w)) < 0x80" "w \<le> 0x0F \<Longrightarrow> to_u32 (to_u8 (0xE0 OR w)) AND 0xE0 \<noteq> 0xC0"
  "w \<le> 0x0F \<Longrightarrow> to_u32 (to_u8 (0xE0 OR w)) AND 0xF0 = 0xE0"
  "w \<le> 0x07 \<Longrightarrow> \<not> to_u32 (to_u8 (0xF0 OR w)) < 0x80" "w \<le> 0x07 \<Longrightarrow> to_u32 (to_u8 (0xF0 OR w)) AND 0xE0 \<noteq> 0xC0"
  "w \<le> 0x07 \<Longrightarrow> to_u32 (to_u8 (0xF0 OR w)) AND 0xF0 \<noteq> 0xE0" "w \<le> 0x07 \<Longrightarrow> to_u32 (to_u8 (0xF0 OR w)) AND 0xF8 = 0xF0"
proof -
  have m: "(0x7F :: 32 word) = mask 7" by (simp add: mask_eq_exp_minus_1)
  show "w \<le> 0x7F \<Longrightarrow> to_u32 (to_u8 w) = w"
    unfolding m by (rule bit_word_eqI, unfold bits, auto dest: le_bits)
  have high: "\<not> x < 0x80" if "bit x 7" for x :: "32 word"
  proof
    assume "x < 0x80"
    then have "x \<le> mask 7" unfolding m [symmetric] by (simp add: word_less_nat_alt word_le_nat_alt)
    from le_bits [OF this that] show False by simp
  qed
  show "w \<le> 0x1F \<Longrightarrow> \<not> to_u32 (to_u8 (0xC0 OR w)) < 0x80"
    by (rule high) (unfold bit_consts bits, auto)
  show "w \<le> 0x0F \<Longrightarrow> \<not> to_u32 (to_u8 (0xE0 OR w)) < 0x80"
    by (rule high) (unfold bit_consts bits, auto)
  show "w \<le> 0x07 \<Longrightarrow> \<not> to_u32 (to_u8 (0xF0 OR w)) < 0x80"
    by (rule high) (unfold bit_consts bits, auto)
  show "w \<le> 0x1F \<Longrightarrow> to_u32 (to_u8 (0xC0 OR w)) AND 0xE0 = 0xC0"
    unfolding bit_consts by (rule bit_word_eqI, unfold bits, auto dest: le_bits)
  show "w \<le> 0x0F \<Longrightarrow> to_u32 (to_u8 (0xE0 OR w)) AND 0xF0 = 0xE0"
    unfolding bit_consts by (rule bit_word_eqI, unfold bits, auto dest: le_bits)
  show "w \<le> 0x07 \<Longrightarrow> to_u32 (to_u8 (0xF0 OR w)) AND 0xF8 = 0xF0"
    unfolding bit_consts by (rule bit_word_eqI, unfold bits, auto dest: le_bits)
  have ne: "x AND m \<noteq> y" if "bit x k" "bit m k" "\<not> bit y k" for x m y :: "32 word" and k
    using that by (auto simp: bit_and_iff)
  show "to_u32 (to_u8 (0xE0 OR w)) AND 0xE0 \<noteq> 0xC0" by (rule ne [of _ 5]) (unfold bit_consts bits, auto)
  show "to_u32 (to_u8 (0xF0 OR w)) AND 0xE0 \<noteq> 0xC0" by (rule ne [of _ 5]) (unfold bit_consts bits, auto)
  show "to_u32 (to_u8 (0xF0 OR w)) AND 0xF0 \<noteq> 0xE0" by (rule ne [of _ 4]) (unfold bit_consts bits, auto)
qed

lemma drop_bit_le:
  "(w :: 32 word) \<le> 0x7FF \<Longrightarrow> drop_bit 6 w \<le> 0x1F" "w \<le> 0xFFFF \<Longrightarrow> drop_bit 12 w \<le> 0x0F"
  "w \<le> 0x1FFFFF \<Longrightarrow> drop_bit 18 w \<le> 0x07"
  unfolding word_le_nat_alt unat_drop_bit_eq unfolding drop_bit_eq_div by simp_all

lemma join12: "push_bit 12 (drop_bit 12 w) OR push_bit 6 (take_bit 6 (drop_bit 6 w)) OR take_bit 6 w = (w :: 32 word)"
proof -
  have "push_bit 12 (drop_bit 12 w) OR push_bit 6 (take_bit 6 (drop_bit 6 w)) =
      push_bit 6 (push_bit 6 (drop_bit 6 (drop_bit 6 w)) OR take_bit 6 (drop_bit 6 w))"
    by (simp only: push_bit_or push_bit_push_bit drop_bit_drop_bit) simp
  then show ?thesis by (simp only: or.assoc [symmetric] join6)
qed

lemma join18:
  "push_bit 18 (drop_bit 18 w) OR push_bit 12 (take_bit 6 (drop_bit 12 w)) OR push_bit 6 (take_bit 6 (drop_bit 6 w)) OR
    take_bit 6 w = (w :: 32 word)"
proof -
  have "push_bit 18 (drop_bit 18 w) OR push_bit 12 (take_bit 6 (drop_bit 12 w)) OR push_bit 6 (take_bit 6 (drop_bit 6 w)) =
      push_bit 6 (push_bit 12 (drop_bit 12 (drop_bit 6 w)) OR push_bit 6 (take_bit 6 (drop_bit 6 (drop_bit 6 w))) OR
        take_bit 6 (drop_bit 6 w))"
    by (simp only: push_bit_or push_bit_push_bit drop_bit_drop_bit) simp
  then show ?thesis by (simp only: or.assoc [symmetric] join12 [unfolded or.assoc [symmetric]] join6)
qed

lemma utf8_loop_step:
  assumes "cp \<le> 0x1FFFFF"
  shows "utf8_loop (utf8_bytes cp @ s) out = utf8_loop s (out @ [cp])"
proof -
  consider "cp \<le> 0x7F" | "\<not> cp \<le> 0x7F" "cp \<le> 0x7FF" | "\<not> cp \<le> 0x7F" "\<not> cp \<le> 0x7FF" "cp \<le> 0xFFFF"
    | "\<not> cp \<le> 0x7F" "\<not> cp \<le> 0x7FF" "\<not> cp \<le> 0xFFFF" by blast
  then show ?thesis
  proof cases
    case 1
    have "cp < 0x80" using 1 by (simp add: word_less_nat_alt word_le_nat_alt)
    then show ?thesis using 1 by (simp add: utf8_bytes_def utf8_loop.simps(2) Let_def lead_byte_tests)
  next
    case 2
    note le = drop_bit_le(1) [OF 2(2)]
    show ?thesis using 2 
      by (simp add: utf8_bytes_def utf8_loop.simps(2) Let_def lead_byte_tests lead_byte le continuation_byte join6)
  next
    case 3
    note le = drop_bit_le(2) [OF 3(3)]
    show ?thesis using 3
      by (simp add: utf8_bytes_def utf8_loop.simps(2) Let_def lead_byte_tests lead_byte le continuation_byte join12)
  next
    case 4
    note le = drop_bit_le(3) [OF assms]
    show ?thesis using 4
      by (simp add: utf8_bytes_def utf8_loop.simps(2) Let_def lead_byte_tests lead_byte le continuation_byte join18)
  qed
qed

definition utf8_string :: "32 word list \<Rightarrow> string" where
  "utf8_string cps = fold utf8_append cps []"

lemma utf8_string_concat: "utf8_string cps = concat (map (\<lambda>cp. map char_of_byte (utf8_bytes cp)) cps)"
proof -
  have "fold utf8_append cps out = out @ concat (map (\<lambda>cp. map char_of_byte (utf8_bytes cp)) cps)" for out
    by (induction cps arbitrary: out) (simp_all add: utf8_append_def)
  then show ?thesis by (simp add: utf8_string_def)
qed

lemma utf8_loop_string:
  "\<forall>cp \<in> set cps. cp \<le> 0x1FFFFF \<Longrightarrow> utf8_loop (concat (map utf8_bytes cps) @ s) out = utf8_loop s (out @ cps)"
  by (induction cps arbitrary: out) (simp_all add: utf8_loop_step)

lemma utf8_decode_string: "\<forall>cp \<in> set cps. cp \<le> 0x1FFFFF \<Longrightarrow> utf8_decode (utf8_string cps) = (cps, True)"
  using utf8_loop_string [of cps "[]" "[]"]
  by (simp add: utf8_decode_def utf8_string_concat map_concat o_def)

section \<open>Bytes as printable code points\<close>

definition printable_bytes :: "nat list" where
  "printable_bytes = [0x21..<0x7F] @ [0xA1..<0xAD] @ [0xAE..<0x100]"

definition other_bytes :: "nat list" where
  "other_bytes = filter (\<lambda>b. b \<notin> set printable_bytes) [0..<256]"

definition byte_to_unicode :: "32 word list" where
  "byte_to_unicode =
     (let bs = printable_bytes @ other_bytes;
          cs = map word_of_nat printable_bytes @ map (\<lambda>n. 256 + word_of_nat n) [0..<length other_bytes]
      in fold (\<lambda>(b, c) table. table[b := c]) (zip bs cs) (replicate 256 0))"

definition uc_to_byte :: "32 word \<Rightarrow> nat option" where
  "uc_to_byte = fold (\<lambda>b m. m(byte_to_unicode ! b \<mapsto> b)) [0..<256] Map.empty"

definition bytes_to_unicode_string :: "string \<Rightarrow> string" where
  "bytes_to_unicode_string raw = fold (\<lambda>c out. utf8_append (byte_to_unicode ! char_code c) out) raw []"

text \<open>The second half of \<^verbatim>\<open>decode_ids\<close>: code points back to the bytes of the text.\<close>

definition unicode_to_text :: "32 word list \<Rightarrow> string" where
  "unicode_to_text cps =
     fold (\<lambda>cp out. case uc_to_byte cp of Some b \<Rightarrow> out @ [char_of b] | None \<Rightarrow> utf8_append cp out) cps []"

lemma fold_updates:
  assumes "distinct bs" "length cs = length bs" "\<forall>b \<in> set bs. b < length t"
  shows "length (fold (\<lambda>(b, c) table. table[b := c]) (zip bs cs) t) = length t \<and>
    (\<forall>b < length t. b \<notin> set bs \<longrightarrow> fold (\<lambda>(b, c) table. table[b := c]) (zip bs cs) t ! b = t ! b) \<and>
    (\<forall>i < length bs. fold (\<lambda>(b, c) table. table[b := c]) (zip bs cs) t ! (bs ! i) = cs ! i)"
  using assms
proof (induction bs arbitrary: cs t)
  case (Cons b bs)
  obtain c cs' where cs: "cs = c # cs'" using Cons.prems(2) by (cases cs) auto
  note IH = Cons.IH [of cs' "t[b := c]"]
  show ?case
    using IH Cons.prems unfolding cs by (auto simp: nth_Cons split: nat.split)
qed simp

abbreviation unicode_codes :: "32 word list" where
  "unicode_codes \<equiv> map word_of_nat printable_bytes @ map (\<lambda>n. 256 + word_of_nat n) [0..<length other_bytes]"

lemma all_bytes:
  "distinct (printable_bytes @ other_bytes)" "set (printable_bytes @ other_bytes) = {0..<256}"
proof -
  have p: "set printable_bytes = {0x21..<0x7F} \<union> {0xA1..<0xAD} \<union> {0xAE..<0x100}"
    unfolding printable_bytes_def by (simp only: set_append set_upt Un_assoc)
  have "distinct printable_bytes"
    unfolding printable_bytes_def by (simp only: distinct_append distinct_upt set_append set_upt) auto
  then show "distinct (printable_bytes @ other_bytes)"
    unfolding other_bytes_def by (simp only: distinct_append distinct_filter distinct_upt set_filter) blast
  show "set (printable_bytes @ other_bytes) = {0..<256}"
    unfolding other_bytes_def set_append set_filter p set_upt by auto
qed

lemma printable_less: "b \<in> set printable_bytes \<Longrightarrow> 0x21 \<le> b \<and> b < 256"
  unfolding printable_bytes_def by (simp only: set_append set_upt) auto

lemma length_other_bytes: "length other_bytes \<le> 256"
  unfolding other_bytes_def by (rule order.trans [OF length_filter_le]) simp

lemma unicode_codes_nat: "unicode_codes = map word_of_nat (printable_bytes @ map (\<lambda>n. 256 + n) [0..<length other_bytes])"
  by (simp add: o_def)

lemma unat_small: "n < 2 ^ 32 \<Longrightarrow> unat (word_of_nat n :: 32 word) = n"
  by (simp add: unat_of_nat)

lemma word_of_nat_inj: "a < 2 ^ 32 \<Longrightarrow> b < 2 ^ 32 \<Longrightarrow> (word_of_nat a :: 32 word) = word_of_nat b \<longleftrightarrow> a = b"
  by (metis unat_small)

lemma unicode_code_small:
  "n \<in> set (printable_bytes @ map (\<lambda>n. 256 + n) [0..<length other_bytes]) \<Longrightarrow> 0x21 \<le> n \<and> n < 512"
  using length_other_bytes printable_less by fastforce

lemma distinct_unicode_codes: "distinct unicode_codes"
proof -
  have "distinct (printable_bytes @ map (\<lambda>n. 256 + n) [0..<length other_bytes])"
    using all_bytes(1) by (auto simp: distinct_map inj_on_def dest: printable_less)
  moreover have "inj_on (word_of_nat :: nat \<Rightarrow> 32 word) (set (printable_bytes @ map (\<lambda>n. 256 + n) [0..<length other_bytes]))"
  proof (rule inj_onI)
    fix x y
    assume "x \<in> set (printable_bytes @ map (\<lambda>n. 256 + n) [0..<length other_bytes])"
      "y \<in> set (printable_bytes @ map (\<lambda>n. 256 + n) [0..<length other_bytes])"
      and e: "(word_of_nat x :: 32 word) = word_of_nat y"
    then have "x < 512" "y < 512" using unicode_code_small by blast+
    then show "x = y" using e word_of_nat_inj [of x y] by simp
  qed
  ultimately show ?thesis unfolding unicode_codes_nat by (rule distinct_map [THEN iffD2, OF conjI])
qed

lemma byte_table:
  "length byte_to_unicode = 256"
  "i < 256 \<Longrightarrow> byte_to_unicode ! ((printable_bytes @ other_bytes) ! i) = unicode_codes ! i"
  "length (printable_bytes @ other_bytes) = 256"
proof -
  show l: "length (printable_bytes @ other_bytes) = 256"
    using distinct_card [OF all_bytes(1)] unfolding all_bytes(2) by simp
  have f: "distinct (printable_bytes @ other_bytes)" "length unicode_codes = length (printable_bytes @ other_bytes)"
    "\<forall>b \<in> set (printable_bytes @ other_bytes). b < length (replicate 256 (0 :: 32 word))"
    using all_bytes by (auto simp: set_eq_iff)
  from fold_updates [OF f] l show "length byte_to_unicode = 256"
    "i < 256 \<Longrightarrow> byte_to_unicode ! ((printable_bytes @ other_bytes) ! i) = unicode_codes ! i"
    by (simp_all add: byte_to_unicode_def Let_def)
qed

lemma byte_index:
  assumes "b < 256"
  obtains i where "i < 256" "b = (printable_bytes @ other_bytes) ! i"
proof -
  have "b \<in> set (printable_bytes @ other_bytes)" unfolding all_bytes(2) using assms by simp
  then show thesis using that unfolding in_set_conv_nth byte_table(3) by blast
qed

lemma byte_to_unicode_inj:
  assumes "a < 256" "b < 256" "byte_to_unicode ! a = byte_to_unicode ! b"
  shows "a = b"
proof -
  obtain i j where ij: "i < 256" "a = (printable_bytes @ other_bytes) ! i" "j < 256" "b = (printable_bytes @ other_bytes) ! j"
    using byte_index assms by metis
  then have "unicode_codes ! i = unicode_codes ! j" using assms(3) byte_table(2) by metis
  moreover have "length unicode_codes = 256" using byte_table(3) by simp
  ultimately show ?thesis using distinct_unicode_codes ij nth_eq_iff_index_eq by metis
qed

lemma byte_to_unicode_le: "b < 256 \<Longrightarrow> byte_to_unicode ! b \<le> 0x1FFFFF"
proof -
  assume "b < 256"
  then obtain i where i: "i < 256" "b = (printable_bytes @ other_bytes) ! i" by (rule byte_index)
  have l: "i < length unicode_codes" using byte_table(3) i(1) by simp
  then have "unicode_codes ! i \<in> set unicode_codes" by (rule nth_mem)
  then obtain n where n: "unicode_codes ! i = word_of_nat n" "n < 512"
    unfolding unicode_codes_nat set_map using unicode_code_small by blast
  then have "unicode_codes ! i \<le> 0x1FFFFF" by (simp add: word_le_nat_alt unat_of_nat)
  then show ?thesis using byte_table(2) [OF i(1)] i(2) by simp
qed

lemma uc_to_byte_table: "b < 256 \<Longrightarrow> uc_to_byte (byte_to_unicode ! b) = Some b"
proof -
  have "fold (\<lambda>b m. m(byte_to_unicode ! b \<mapsto> b)) [0..<n] Map.empty (byte_to_unicode ! b) = Some b"
    if "n \<le> 256" "b < n" for b n
    using that
  proof (induction n)
    case (Suc n)
    then show ?case using byte_to_unicode_inj [of b n] by (auto simp: less_Suc_eq)
  qed simp
  then show "b < 256 \<Longrightarrow> uc_to_byte (byte_to_unicode ! b) = Some b" by (simp add: uc_to_byte_def)
qed

lemma uc_to_byte_Some: "uc_to_byte cp = Some b \<Longrightarrow> b < 256 \<and> cp = byte_to_unicode ! b"
proof -
  have "fold (\<lambda>b m. m(byte_to_unicode ! b \<mapsto> b)) [0..<n] Map.empty cp = Some b \<Longrightarrow> b < n \<and> cp = byte_to_unicode ! b" for n
    by (induction n) (auto simp: less_Suc_eq split: if_splits)
  then show "uc_to_byte cp = Some b \<Longrightarrow> b < 256 \<and> cp = byte_to_unicode ! b" by (simp add: uc_to_byte_def)
qed

lemma byte_to_unicode_printable: "b \<in> set printable_bytes \<Longrightarrow> byte_to_unicode ! b = word_of_nat b"
proof -
  assume "b \<in> set printable_bytes"
  then obtain i where i: "i < length printable_bytes" "b = printable_bytes ! i" by (metis in_set_conv_nth)
  moreover have "i < 256" using byte_table(3) i(1) by simp
  ultimately show ?thesis using byte_table(2) [of i] by (simp add: nth_append)
qed

lemma byte_to_unicode_other: "b \<in> set other_bytes \<Longrightarrow> 256 \<le> unat (byte_to_unicode ! b)"
proof -
  assume "b \<in> set other_bytes"
  then obtain j where j: "j < length other_bytes" "b = other_bytes ! j" by (metis in_set_conv_nth)
  let ?i = "length printable_bytes + j"
  have "?i < 256" using byte_table(3) j(1) by simp
  then have "byte_to_unicode ! b = word_of_nat (256 + j)" using byte_table(2) [of ?i] j by (simp add: nth_append)
  moreover have "256 + j < 2 ^ 32" using j(1) length_other_bytes by simp
  ultimately show ?thesis using unat_small [of "256 + j"] by (simp only:)
qed

lemma uc_to_byte_ascii: "n < 128 \<Longrightarrow> uc_to_byte (word_of_nat n) = (if n \<in> set printable_bytes then Some n else None)"
proof (cases "n \<in> set printable_bytes")
  case True
  then show ?thesis using uc_to_byte_table [of n] printable_less [OF True] byte_to_unicode_printable [OF True] by simp
next
  case False
  assume n: "n < 128"
  have "uc_to_byte (word_of_nat n) \<noteq> Some b" for b
  proof
    assume "uc_to_byte (word_of_nat n) = Some b"
    then have b: "b < 256" "word_of_nat n = byte_to_unicode ! b" by (auto dest: uc_to_byte_Some)
    have "n < 2 ^ 32" using n by simp
    then have u: "unat (byte_to_unicode ! b) = n" unfolding b(2) [symmetric] by (rule unat_small)
    have "b \<in> set (printable_bytes @ other_bytes)" using b(1) unfolding all_bytes(2) by simp
    then have "b \<in> set printable_bytes" using byte_to_unicode_other [of b] u n by auto
    then show False
      using byte_to_unicode_printable [of b] u False printable_less [of b] unat_small [of b] by auto
  qed
  then show ?thesis using False by auto
qed

section \<open>Text of token strings\<close>

lemma unicode_to_text_concat:
  "unicode_to_text cps =
    concat (map (\<lambda>cp. case uc_to_byte cp of Some b \<Rightarrow> [char_of b] | None \<Rightarrow> map char_of_byte (utf8_bytes cp)) cps)"
proof -
  have "fold (\<lambda>cp out. case uc_to_byte cp of Some b \<Rightarrow> out @ [char_of b] | None \<Rightarrow> utf8_append cp out) cps out =
      out @ concat (map (\<lambda>cp. case uc_to_byte cp of Some b \<Rightarrow> [char_of b] | None \<Rightarrow> map char_of_byte (utf8_bytes cp)) cps)" for out
    by (induction cps arbitrary: out) (simp_all add: utf8_append_def split: option.split)
  then show ?thesis by (simp add: unicode_to_text_def)
qed

lemma unicode_to_text_append: "unicode_to_text (cps @ cps') = unicode_to_text cps @ unicode_to_text cps'"
  by (simp add: unicode_to_text_concat)

lemma unicode_to_text_Cons:
  "unicode_to_text (cp # cps) =
    (case uc_to_byte cp of Some b \<Rightarrow> [char_of b] | None \<Rightarrow> map char_of_byte (utf8_bytes cp)) @ unicode_to_text cps"
  by (simp add: unicode_to_text_concat)

lemma unicode_to_text_Nil [simp]: "unicode_to_text [] = []"
  by (simp add: unicode_to_text_def)

text \<open>The codes of a text, and of a string of ASCII characters as it stands.\<close>

definition text_codes :: "string \<Rightarrow> 32 word list" where
  "text_codes raw = map (\<lambda>c. byte_to_unicode ! char_code c) raw"

lemma bytes_to_unicode_string_codes: "bytes_to_unicode_string raw = utf8_string (text_codes raw)"
  by (simp add: bytes_to_unicode_string_def utf8_string_def text_codes_def fold_map o_def)

lemma text_codes_le: "cp \<in> set (text_codes raw) \<Longrightarrow> cp \<le> 0x1FFFFF"
  using byte_to_unicode_le char_code_less by (auto simp: text_codes_def)

lemma char_of_char_code [simp]: "char_of (char_code c) = c"
  by (simp add: char_code_def)

lemma unicode_to_text_codes [simp]: "unicode_to_text (text_codes raw) = raw"
  by (induction raw) (simp_all add: text_codes_def unicode_to_text_Cons uc_to_byte_table char_code_less)

definition ascii :: "string \<Rightarrow> bool" where
  "ascii s \<longleftrightarrow> (\<forall>c \<in> set s. char_code c < 128)"

definition ascii_codes :: "string \<Rightarrow> 32 word list" where
  "ascii_codes s = map (\<lambda>c. word_of_nat (char_code c)) s"

lemma ascii_code:
  assumes "n < 128"
  shows "(word_of_nat n :: 32 word) \<le> 0x1FFFFF" "map char_of_byte (utf8_bytes (word_of_nat n)) = [char_of n]"
proof -
  have u: "unat (word_of_nat n :: 32 word) = n" using assms by (intro unat_small) simp
  show "(word_of_nat n :: 32 word) \<le> 0x1FFFFF" using assms u by (simp add: word_le_nat_alt)
  have "(word_of_nat n :: 32 word) \<le> 0x7F" using assms u by (simp add: word_le_nat_alt)
  moreover have "to_u8 (word_of_nat n) = word_of_nat n"
  proof -
    have "take_bit 32 n = n" using assms by (subst take_bit_nat_eq_self_iff) simp
    then show ?thesis by (simp add: to_u8_def unsigned_of_nat)
  qed
  ultimately show "map char_of_byte (utf8_bytes (word_of_nat n)) = [char_of n]"
    using assms by (simp add: utf8_bytes_def char_of_byte_def unat_byte)
qed

lemma ascii_string: "ascii s \<Longrightarrow> utf8_string (ascii_codes s) = s"
  unfolding utf8_string_concat
  by (induction s) (simp_all add: ascii_def ascii_codes_def ascii_code)

lemma ascii_codes_le: "ascii s \<Longrightarrow> cp \<in> set (ascii_codes s) \<Longrightarrow> cp \<le> 0x1FFFFF"
  by (auto simp: ascii_def ascii_codes_def ascii_code)

lemma unicode_to_text_ascii: "ascii s \<Longrightarrow> unicode_to_text (ascii_codes s) = s"
  by (induction s) (simp_all add: ascii_def ascii_codes_def unicode_to_text_Cons uc_to_byte_ascii ascii_code)

lemma utf8_string_append: "utf8_string (cps @ cps') = utf8_string cps @ utf8_string cps'"
  by (simp add: utf8_string_concat)

end
