(* ===== verification/Tokenizer.thy ===== *)
theory Tokenizer
  imports Text_Encoding
begin

text \<open>
  The tokenizer interface (\<^verbatim>\<open>include/cverl/text/tokenizer.h\<close>) and the byte tokenizer
  (\<^verbatim>\<open>src/text/byte_tokenizer.cc\<close>). Ids are \<^verbatim>\<open>int32_t\<close> values, as integers;
  \<open>to_i32\<close> is the cast of a size to \<^verbatim>\<open>int32_t\<close>. The locale \<open>tokenizer_contract\<close>
  is what the trainer relies on: ids below the vocabulary size, and a text that comes back from its
  ids; both tokenizers are interpretations of it.
\<close>

section \<open>Interface\<close>

record encode_options =
  add_bos :: bool
  add_eos :: bool
  max_tokens :: int

definition default_options :: encode_options where
  "default_options = \<lparr> add_bos = False, add_eos = False, max_tokens = - 1 \<rparr>"

definition to_i32 :: "int \<Rightarrow> int" where
  "to_i32 = signed_take_bit 31"

lemma to_i32_id: "- (2 ^ 31) \<le> x \<Longrightarrow> x < 2 ^ 31 \<Longrightarrow> to_i32 x = x"
  by (simp add: to_i32_def signed_take_bit_int_eq_self)

lemma to_i32_size: "n < 2 ^ 31 \<Longrightarrow> to_i32 (int n) = int n"
  by (intro to_i32_id) simp_all

lemma to_i32_range: "- (2 ^ 31) \<le> to_i32 x" "to_i32 x < 2 ^ 31"
  unfolding to_i32_def using signed_take_bit_int_greater_eq_minus_exp [of 31 x] signed_take_bit_int_less_exp [of 31 x]
  by simp_all

locale tokenizer_contract =
  fixes enc :: "string \<Rightarrow> int list" and dec :: "int list \<Rightarrow> bool \<Rightarrow> string" and vsize :: int and good :: "string \<Rightarrow> bool"
  assumes enc_range: "good s \<Longrightarrow> i \<in> set (enc s) \<Longrightarrow> 0 \<le> i \<and> i < vsize"
    and dec_enc: "good s \<Longrightarrow> dec (enc s) False = s"
begin

lemma enc_inj: "good s \<Longrightarrow> good t \<Longrightarrow> enc s = enc t \<Longrightarrow> s = t"
  using dec_enc by metis

lemma dec_map: "\<forall>s \<in> set ss. good s \<Longrightarrow> map (\<lambda>ids. dec ids False) (map enc ss) = ss"
  by (induction ss) (simp_all add: dec_enc)

end

section \<open>The byte tokenizer\<close>

definition k_pad_id :: int where "k_pad_id = 0"
definition k_bos_id :: int where "k_bos_id = 1"
definition k_eos_id :: int where "k_eos_id = 2"
definition k_unk_id :: int where "k_unk_id = 3"
definition k_byte_offset :: int where "k_byte_offset = 4"
definition k_vocab_size :: int where "k_vocab_size = 260"

lemmas byte_ids = k_pad_id_def k_bos_id_def k_eos_id_def k_unk_id_def k_byte_offset_def k_vocab_size_def

fun push_bytes :: "int \<Rightarrow> string \<Rightarrow> int list \<Rightarrow> int list" where
  "push_bytes limit [] ids = ids"
| "push_bytes limit (c # cs) ids =
     (if 0 < limit \<and> to_i32 (int (length ids)) \<ge> limit then ids
      else push_bytes limit cs (ids @ [k_byte_offset + int (char_code c)]))"

definition byte_encode :: "string \<Rightarrow> encode_options \<Rightarrow> int list" where
  "byte_encode text options =
     (let ids = push_bytes (max_tokens options) text (if add_bos options then [k_bos_id] else [])
      in if add_eos options \<and> (max_tokens options \<le> 0 \<or> to_i32 (int (length ids)) < max_tokens options)
         then ids @ [k_eos_id] else ids)"

definition decode_byte_id :: "bool \<Rightarrow> int \<Rightarrow> string" where
  "decode_byte_id skip_special i =
     (if i < 0 \<or> i \<ge> k_vocab_size then []
      else if i < k_byte_offset then
        (if skip_special then []
         else if i = k_pad_id then [char_of (0 :: nat)]
         else if i = k_bos_id then ''<bos>''
         else if i = k_eos_id then ''<eos>''
         else if i = k_unk_id then ''<unk>'' else [])
      else [char_of (nat (i - k_byte_offset))])"

definition byte_decode :: "int list \<Rightarrow> bool \<Rightarrow> string" where
  "byte_decode ids skip_special = fold (\<lambda>id out. out @ decode_byte_id skip_special id) ids []"

lemma byte_decode_concat: "byte_decode ids skip = concat (map (decode_byte_id skip) ids)"
proof -
  have "fold (\<lambda>id out. out @ decode_byte_id skip id) ids out = out @ concat (map (decode_byte_id skip) ids)" for out
    by (induction ids arbitrary: out) simp_all
  then show ?thesis by (simp add: byte_decode_def)
qed

lemma push_bytes_unlimited: "limit \<le> 0 \<Longrightarrow> push_bytes limit text ids = ids @ map (\<lambda>c. k_byte_offset + int (char_code c)) text"
  by (induction "text" arbitrary: ids) simp_all

lemma push_bytes_limited:
  "0 < limit \<Longrightarrow> length ids + length text < 2 ^ 31 \<Longrightarrow>
    push_bytes limit text ids = ids @ map (\<lambda>c. k_byte_offset + int (char_code c)) (take (nat limit - length ids) text)"
proof (induction "text" arbitrary: ids)
  case (Cons c cs)
  have "to_i32 (int (length ids)) = int (length ids)" using Cons.prems by (intro to_i32_size) simp
  then show ?case using Cons by (auto simp: take_Cons' nat_le_iff le_nat_iff)
qed simp

definition kept_bytes :: "encode_options \<Rightarrow> string \<Rightarrow> string" where
  "kept_bytes options text =
     (if max_tokens options \<le> 0 then text
      else take (nat (max_tokens options) - (if add_bos options then 1 else 0)) text)"

lemma byte_encode_form:
  assumes "Suc (length text) < 2 ^ 31"
  shows "byte_encode text options =
    (if add_bos options then [k_bos_id] else []) @
    map (\<lambda>c. k_byte_offset + int (char_code c)) (kept_bytes options text) @
    (if add_eos options \<and> (max_tokens options \<le> 0 \<or>
        (if add_bos options then 1 else 0) + int (length (kept_bytes options text)) < max_tokens options)
     then [k_eos_id] else [])"
proof -
  let ?ids = "(if add_bos options then [k_bos_id] else []) @
    map (\<lambda>c. k_byte_offset + int (char_code c)) (kept_bytes options text)"
  have "push_bytes (max_tokens options) text (if add_bos options then [k_bos_id] else []) = ?ids"
    using assms push_bytes_limited [of "max_tokens options" _ "text"]
    by (cases "max_tokens options \<le> 0") (simp_all add: push_bytes_unlimited kept_bytes_def)
  moreover have "length ?ids < 2 ^ 31" using assms by (auto simp: kept_bytes_def)
  then have "to_i32 (int (length ?ids)) = int (length ?ids)" by (rule to_i32_size)
  ultimately show ?thesis by (simp add: byte_encode_def Let_def)
qed

lemma decode_bytes [simp]:
  "concat (map (decode_byte_id skip) (map (\<lambda>c. k_byte_offset + int (char_code c)) text)) = text"
proof -
  have "decode_byte_id skip (k_byte_offset + int (char_code c)) = [c]" for c
    using char_code_less [of c] by (simp add: decode_byte_id_def byte_ids)
  then show ?thesis by (induction "text") simp_all
qed

text \<open>
  Claim C15. Every id of the byte tokenizer is below the vocabulary size, a token limit is never
  exceeded, decoding without the special ids returns the bytes that were kept, which without a limit
  is the whole text, and BOS and EOS are where the options ask for them.
\<close>

theorem byte_tokenizer_correct:
  assumes "Suc (length text) < 2 ^ 31"
  shows "(\<forall>id \<in> set (byte_encode text options). 0 \<le> id \<and> id < k_vocab_size) \<and>
    (0 < max_tokens options \<longrightarrow> int (length (byte_encode text options)) \<le> max_tokens options) \<and>
    byte_decode (byte_encode text options) True = kept_bytes options text \<and>
    (max_tokens options \<le> 0 \<longrightarrow> byte_encode text options =
       (if add_bos options then [k_bos_id] else []) @ byte_encode text default_options @
       (if add_eos options then [k_eos_id] else []))"
proof (intro conjI impI)
  have "char_code c < 256" for c by (rule char_code_less)
  then show "\<forall>id \<in> set (byte_encode text options). 0 \<le> id \<and> id < k_vocab_size"
    unfolding byte_encode_form [OF assms] by (auto simp: byte_ids)
  show "byte_decode (byte_encode text options) True = kept_bytes options text"
    unfolding byte_encode_form [OF assms] byte_decode_concat map_append concat_append decode_bytes
    by (simp add: decode_byte_id_def byte_ids)
  show "int (length (byte_encode text options)) \<le> max_tokens options" if "0 < max_tokens options"
    using that unfolding byte_encode_form [OF assms] by (auto simp: kept_bytes_def)
  show "byte_encode text options =
       (if add_bos options then [k_bos_id] else []) @ byte_encode text default_options @
       (if add_eos options then [k_eos_id] else [])" if "max_tokens options \<le> 0"
    using that unfolding byte_encode_form [OF assms] by (simp add: kept_bytes_def default_options_def)
qed

theorem byte_tokenizer_correct_witness:
  "byte_decode (byte_encode ''hello'' \<lparr> add_bos = True, add_eos = True, max_tokens = 4 \<rparr>) True = ''hel''"
  using byte_tokenizer_correct [of "''hello''" "\<lparr> add_bos = True, add_eos = True, max_tokens = 4 \<rparr>"]
  by (simp add: kept_bytes_def)

interpretation byte_tok: tokenizer_contract "\<lambda>s. byte_encode s default_options" byte_decode k_vocab_size
  "\<lambda>s. Suc (length s) < 2 ^ 31"
proof
  fix s :: string and i
  assume s: "Suc (length s) < 2 ^ 31"
  have "char_code c < 256" for c by (rule char_code_less)
  then show "i \<in> set (byte_encode s default_options) \<Longrightarrow> 0 \<le> i \<and> i < k_vocab_size"
    unfolding byte_encode_form [OF s] by (auto simp: byte_ids default_options_def)
  show "byte_decode (byte_encode s default_options) False = s"
    unfolding byte_encode_form [OF s] byte_decode_concat map_append concat_append decode_bytes
    by (simp add: default_options_def kept_bytes_def)
qed

end
