(* ===== verification/Bpe_Tokenizer.thy ===== *)
theory Bpe_Tokenizer
  imports Tokenizer "HOL-Library.AList" "HOL-Library.Multiset"
begin

text \<open>
  The byte-level BPE tokenizer, \<^verbatim>\<open>src/text/hf_bpe_tokenizer.cc\<close>. The JSON document is
  the record of the fields \<^verbatim>\<open>load\<close> reads (the JSON library is not modelled); the regular
  expression engine is the argument \<open>compile\<close>, which turns a pattern into a matcher: a text and
  a start offset to the offsets of the first match (None is a negative return code).
  \<open>iter\<close> is the order in which \<^verbatim>\<open>std::unordered_map\<close> visits its entries and
  \<open>srt\<close> what \<^verbatim>\<open>std::sort\<close> makes of a list; both are left open.
  \<open>find_all\<close> may not return if a matcher goes backwards, so it is a partial function.
\<close>

section \<open>The document\<close>

datatype merge_json = MergeString string | MergePair string string | MergeOther

record model_json =
  mj_type :: string
  mj_vocab :: "(string \<times> int option) list option"
  mj_merges :: "merge_json list option"
  mj_unk_token :: "string option"

record added_json =
  aj_id :: "int option"
  aj_content :: "string option"
  aj_special :: bool

datatype pre_json =
    PreNode string "string option" "pre_json list option"
  | PreOther

record tokenizer_json =
  tj_model :: "model_json option"
  tj_added :: "added_json list option"
  tj_pre :: "pre_json option"

record hf_options =
  ho_path :: string
  ho_pad_id :: int
  ho_pad_token :: string

section \<open>The tokenizer\<close>

type_synonym matcher = "string \<Rightarrow> nat \<Rightarrow> (nat \<times> nat) option"

record bpe =
  bt_vocab :: "(string \<times> int) list"
  bt_id_to_token :: "string list"
  bt_merge_ranks :: "string \<times> string \<Rightarrow> int option"
  bt_matcher :: matcher
  bt_added :: "(string \<times> int) list"
  bt_is_special :: "bool list"
  bt_vocab_size :: int
  bt_pad_id :: int
  bt_bos_id :: int
  bt_eos_id :: int
  bt_unk_id :: int

definition empty_bpe :: bpe where
  "empty_bpe = \<lparr> bt_vocab = [], bt_id_to_token = [], bt_merge_ranks = (\<lambda>_. None), bt_matcher = (\<lambda>_ _. None),
     bt_added = [], bt_is_special = [], bt_vocab_size = 0, bt_pad_id = - 1, bt_bos_id = - 1, bt_eos_id = - 1,
     bt_unk_id = - 1 \<rparr>"

section \<open>Loading\<close>

definition quoted :: "string \<Rightarrow> string" where
  "quoted s = char_of (39 :: nat) # s @ [char_of (39 :: nat)]"

text \<open>\<^verbatim>\<open>if (id + 1 > vocab_size) vocab_size = id + 1;\<close>, where the addition may overflow.\<close>

definition grow_vocab_size :: "int \<Rightarrow> bpe \<Rightarrow> bpe result" where
  "grow_vocab_size i t =
     and_then (throw_if (i = 2 ^ 31 - 1) SignedOverflow) (\<lambda>_.
     Inr (if i + 1 > bt_vocab_size t then t\<lparr>bt_vocab_size := i + 1\<rparr> else t))"

definition load_vocab_entry :: "string \<times> int option \<Rightarrow> bpe \<Rightarrow> bpe result" where
  "load_vocab_entry = (\<lambda>(key, val) t.
     case val of
       None \<Rightarrow> Inl (RuntimeError (''HfBpeTokenizer: vocab value for '' @ quoted key @ '' is not an integer''))
     | Some v \<Rightarrow>
         let i = to_i32 v;
             vocab = (if key \<in> fst ` set (bt_vocab t) then bt_vocab t else bt_vocab t @ [(key, i)])
         in grow_vocab_size i (t\<lparr>bt_vocab := vocab\<rparr>))"

definition merge_parts :: "merge_json \<Rightarrow> (string \<times> string) result" where
  "merge_parts m =
     (case m of
        MergeString s \<Rightarrow>
          (case str_find s '' '' 0 of
             None \<Rightarrow> Inl (RuntimeError (''HfBpeTokenizer: malformed merge string '' @ quoted s))
           | Some sp \<Rightarrow> Inr (take sp s, drop (sp + 1) s))
      | MergePair a b \<Rightarrow> Inr (a, b)
      | MergeOther \<Rightarrow> Inl (RuntimeError ''HfBpeTokenizer: unsupported merge entry shape''))"

definition load_merge :: "int \<times> merge_json \<Rightarrow> bpe \<Rightarrow> bpe result" where
  "load_merge = (\<lambda>(rank, m) t.
     and_then (merge_parts m) (\<lambda>ab.
     Inr (if bt_merge_ranks t ab = None then t\<lparr>bt_merge_ranks := (bt_merge_ranks t)(ab \<mapsto> rank)\<rparr> else t)))"

definition note_special :: "string \<Rightarrow> int \<Rightarrow> bpe \<Rightarrow> bpe" where
  "note_special content i t =
     (let t = (if content \<in> {''<|pad|>'', ''<pad>'', ''[PAD]''} \<and> bt_pad_id t < 0 then t\<lparr>bt_pad_id := i\<rparr> else t);
          t = (if content \<in> {''<|endoftext|>'', ''</s>'', ''<|im_end|>'', ''<eos>'', ''[EOS]''} \<and> bt_eos_id t < 0
               then t\<lparr>bt_eos_id := i\<rparr> else t);
          t = (if content \<in> {''<s>'', ''<bos>'', ''[BOS]'', ''<|im_start|>''} \<and> bt_bos_id t < 0
               then t\<lparr>bt_bos_id := i\<rparr> else t)
      in if content \<in> {''<unk>'', ''[UNK]''} \<and> bt_unk_id t < 0 then t\<lparr>bt_unk_id := i\<rparr> else t)"

definition load_added :: "added_json \<Rightarrow> bpe \<Rightarrow> bpe result" where
  "load_added a t =
     (case (aj_id a, aj_content a) of
        (Some v, Some content) \<Rightarrow>
          let i = to_i32 v in
          and_then (grow_vocab_size i
            (t\<lparr>bt_vocab := AList.update content i (bt_vocab t), bt_added := bt_added t @ [(content, i)]\<rparr>)) (\<lambda>t.
          Inr (if aj_special a then note_special content i t else t))
      | _ \<Rightarrow> Inr t)"

definition resolve_ids :: "model_json \<Rightarrow> hf_options \<Rightarrow> bpe \<Rightarrow> bpe" where
  "resolve_ids model options t =
     (let t = (case mj_unk_token model of
            None \<Rightarrow> t
          | Some u \<Rightarrow> (case map_of (bt_vocab t) u of None \<Rightarrow> t | Some i \<Rightarrow> t\<lparr>bt_unk_id := i\<rparr>))
      in if ho_pad_id options \<ge> 0 then t\<lparr>bt_pad_id := ho_pad_id options\<rparr>
         else if bt_pad_id t < 0 then
           (case map_of (bt_vocab t) (ho_pad_token options) of
              Some i \<Rightarrow> t\<lparr>bt_pad_id := i\<rparr>
            | None \<Rightarrow> if bt_eos_id t \<ge> 0 then t\<lparr>bt_pad_id := bt_eos_id t\<rparr> else t)
         else t)"

definition reverse_vocab :: "((string \<times> int) list \<Rightarrow> (string \<times> int) list) \<Rightarrow> bpe \<Rightarrow> bpe" where
  "reverse_vocab iter t =
     (let n = nat (bt_vocab_size t);
          ok = (\<lambda>i. 0 \<le> i \<and> i < bt_vocab_size t);
          tokens = fold (\<lambda>(tok, i) l. if ok i then l[nat i := tok] else l) (iter (bt_vocab t)) (replicate n []);
          special = fold (\<lambda>(content, i) l. if ok i then l[nat i := True] else l) (bt_added t) (replicate n False)
      in t\<lparr>bt_id_to_token := tokens, bt_is_special := special\<rparr>)"

fun walk_pre :: "pre_json \<Rightarrow> string \<Rightarrow> string" where
  "walk_pre PreOther pattern = pattern"
| "walk_pre (PreNode ty regex children) pattern =
     (if pattern \<noteq> [] then pattern
      else case (ty = ''Split'', regex) of
          (True, Some r) \<Rightarrow> r
        | _ \<Rightarrow> (case (ty = ''Sequence'', children) of
            (True, Some cs) \<Rightarrow> fold walk_pre cs pattern
          | _ \<Rightarrow> pattern))"

text \<open>The default pattern of the code, \<^verbatim>\<open>kQwenLikePattern\<close>.\<close>

definition k_qwen_like_pattern :: string where
  "k_qwen_like_pattern =
     (let q = [char_of (39 :: nat)]; b = [char_of (92 :: nat)]
      in ''(?i:'' @ q @ ''s|'' @ q @ ''t|'' @ q @ ''re|'' @ q @ ''ve|'' @ q @ ''m|'' @ q @ ''ll|'' @ q @ ''d)|'' @
         ''[^'' @ b @ ''r'' @ b @ ''n'' @ b @ ''p{L}'' @ b @ ''p{N}]?'' @ b @ ''p{L}+|'' @
         b @ ''p{N}{1,3}|'' @
         '' ?[^'' @ b @ ''s'' @ b @ ''p{L}'' @ b @ ''p{N}]+['' @ b @ ''r'' @ b @ ''n]*|'' @
         b @ ''s*['' @ b @ ''r'' @ b @ ''n]+|'' @
         b @ ''s+(?!'' @ b @ ''S)|'' @
         b @ ''s+'')"

definition load_bpe ::
  "((string \<times> int) list \<Rightarrow> (string \<times> int) list) \<Rightarrow> ((string \<times> int) list \<Rightarrow> (string \<times> int) list) \<Rightarrow>
     (string \<Rightarrow> matcher result) \<Rightarrow> tokenizer_json option \<Rightarrow> hf_options \<Rightarrow> bpe result" where
  "load_bpe iter srt compile file options =
     (case file of
        None \<Rightarrow> Inl (RuntimeError (''HfBpeTokenizer: failed to open '' @ ho_path options))
      | Some doc \<Rightarrow>
     (case tj_model doc of
        None \<Rightarrow> Inl (RuntimeError (''HfBpeTokenizer: tokenizer.json missing '' @ quoted ''model'' @ '' field''))
      | Some model \<Rightarrow>
     and_then (throw_if (mj_type model \<noteq> ''BPE'')
       (RuntimeError (''HfBpeTokenizer: unsupported model type '' @ quoted (mj_type model) @
          '' (only '' @ quoted ''BPE'' @ '' is supported; SentencePiece tokenizers need a different backend)''))) (\<lambda>_.
     case mj_vocab model of
        None \<Rightarrow> Inl (RuntimeError ''HfBpeTokenizer: model.vocab missing or not an object'')
      | Some entries \<Rightarrow>
     and_then (fold_result load_vocab_entry entries empty_bpe) (\<lambda>t.
     and_then (case mj_merges model of
         None \<Rightarrow> Inr t
       | Some ms \<Rightarrow> fold_result load_merge (zip (map int [0..<length ms]) ms) t) (\<lambda>t.
     and_then (case tj_added doc of
         None \<Rightarrow> Inr t
       | Some added \<Rightarrow> and_then (fold_result load_added added t) (\<lambda>t. Inr (t\<lparr>bt_added := srt (bt_added t)\<rparr>))) (\<lambda>t.
     let t = reverse_vocab iter (resolve_ids model options t);
         pattern = (case tj_pre doc of None \<Rightarrow> [] | Some node \<Rightarrow> walk_pre node []);
         pattern = (if pattern = [] then k_qwen_like_pattern else pattern)
     in and_then (compile pattern) (\<lambda>m. Inr (t\<lparr>bt_matcher := m\<rparr>))))))))"

section \<open>Encoding\<close>

text \<open>The matches of the pre-tokenizer, from \<open>start\<close> on.\<close>

partial_function (option) find_all :: "matcher \<Rightarrow> string \<Rightarrow> nat \<Rightarrow> string list \<Rightarrow> string list option" where
  "find_all m txt start out =
     (if start \<le> length txt then
        (case m txt start of
           None \<Rightarrow> Some out
         | Some (a, b) \<Rightarrow>
             if b = a then find_all m txt (start + 1) out
             else find_all m txt b (out @ [substr txt a (b - a)]))
      else Some out)"

definition k_int32_max :: int where "k_int32_max = 2 ^ 31 - 1"

text \<open>The scan for the adjacent pair of the lowest rank: its rank and its position.\<close>

fun best_pair :: "(string \<times> string \<Rightarrow> int option) \<Rightarrow> nat \<Rightarrow> string list \<Rightarrow> (int \<times> nat) option \<Rightarrow> (int \<times> nat) option" where
  "best_pair ranks i (a # b # ps) best =
     (let best' = (case ranks (a, b) of
          Some r \<Rightarrow> if r < (case best of None \<Rightarrow> k_int32_max | Some (br, _) \<Rightarrow> br) then Some (r, i) else best
        | None \<Rightarrow> best)
      in best_pair ranks (i + 1) (b # ps) best')"
| "best_pair ranks i ps best = best"

definition merge_at :: "nat \<Rightarrow> string list \<Rightarrow> string list" where
  "merge_at i parts = take i parts @ [parts ! i @ parts ! (i + 1)] @ drop (i + 2) parts"

lemma best_pair_bound:
  "best_pair ranks i ps best = Some (r, j) \<Longrightarrow> best = Some (r, j) \<or> (i \<le> j \<and> j + 1 < i + length ps)"
  by (induction ranks i ps best rule: best_pair.induct) (auto simp: Let_def split: option.splits if_splits)

function merge_loop :: "(string \<times> string \<Rightarrow> int option) \<Rightarrow> string list \<Rightarrow> string list" where
  "merge_loop ranks parts =
     (if length parts > 1 then
        (case best_pair ranks 0 parts None of
           None \<Rightarrow> parts
         | Some (_, i) \<Rightarrow> merge_loop ranks (merge_at i parts))
      else parts)"
  by pat_completeness auto
termination
proof (relation "measure (\<lambda>(_, parts). length parts)")
  fix ranks parts x r i
  assume "best_pair ranks 0 parts None = Some x" "(r, i) = x"
  then have "i + 1 < length parts" using best_pair_bound [of ranks 0 parts None r i] by simp
  then show "((ranks, merge_at i parts), ranks, parts) \<in> measure (\<lambda>(_, parts). length parts)"
    by (simp add: merge_at_def)
qed simp

declare merge_loop.simps [simp del]

definition part_ids :: "bpe \<Rightarrow> string \<Rightarrow> int list" where
  "part_ids t p =
     (case map_of (bt_vocab t) p of
        Some i \<Rightarrow> [i]
      | None \<Rightarrow> if bt_unk_id t \<ge> 0 then [bt_unk_id t] else [])"

definition byte_part :: "char \<Rightarrow> string" where
  "byte_part c = utf8_append (byte_to_unicode ! char_code c) []"

definition bpe_encode_pretoken :: "bpe \<Rightarrow> string \<Rightarrow> int list" where
  "bpe_encode_pretoken t chunk =
     (if chunk = [] then []
      else let parts = map byte_part chunk in
        if length parts = 1 then part_ids t (parts ! 0)
        else concat (map (part_ids t) (merge_loop (bt_merge_ranks t) parts)))"

definition encode_text_segment :: "bpe \<Rightarrow> string \<Rightarrow> int list option" where
  "encode_text_segment t txt =
     map_option (\<lambda>chunks. concat (map (bpe_encode_pretoken t) chunks)) (find_all (bt_matcher t) txt 0 [])"

text \<open>The leftmost, then longest, added token at or after \<open>pos\<close>: its position, length and id.\<close>

definition special_candidate ::
  "string \<Rightarrow> nat \<Rightarrow> string \<times> int \<Rightarrow> (nat \<times> nat \<times> int) option \<Rightarrow> (nat \<times> nat \<times> int) option" where
  "special_candidate s pos = (\<lambda>(content, i) best.
     if content = [] then best
     else case str_find s content pos of
         None \<Rightarrow> best
       | Some f \<Rightarrow>
           (case best of
              None \<Rightarrow> Some (f, length content, i)
            | Some (bs, bl, bi) \<Rightarrow>
                if f < bs \<or> (f = bs \<and> length content > bl) then Some (f, length content, i) else best))"

definition next_special :: "bpe \<Rightarrow> string \<Rightarrow> nat \<Rightarrow> (nat \<times> nat \<times> int) option" where
  "next_special t s pos = fold (special_candidate s pos) (bt_added t) None"

lemma next_special_Some:
  assumes "next_special t s pos = Some (st, len, i)"
  shows "pos \<le> st" "0 < len" "st + len \<le> length s" "(substr s st len, i) \<in> set (bt_added t)"
proof -
  have "fold (special_candidate s pos) xs best = Some (st, len, i) \<Longrightarrow> set xs \<subseteq> A \<Longrightarrow>
      (\<forall>st len i. best = Some (st, len, i) \<longrightarrow> pos \<le> st \<and> 0 < len \<and> st + len \<le> length s \<and> (substr s st len, i) \<in> A) \<Longrightarrow>
      pos \<le> st \<and> 0 < len \<and> st + len \<le> length s \<and> (substr s st len, i) \<in> A" for xs best A
  proof (induction xs arbitrary: best)
    case (Cons x xs)
    obtain content i' where x: "x = (content, i')" by fastforce
    show ?case
    proof (rule Cons.IH)
      show "fold (special_candidate s pos) xs (special_candidate s pos x best) = Some (st, len, i)"
        using Cons.prems(1) by simp
      show "set xs \<subseteq> A" using Cons.prems(2) by simp
      show "\<forall>st len i. special_candidate s pos x best = Some (st, len, i) \<longrightarrow>
          pos \<le> st \<and> 0 < len \<and> st + len \<le> length s \<and> (substr s st len, i) \<in> A"
        using Cons.prems(2,3) str_find_Some [of s content pos]
        by (auto simp: x special_candidate_def occurs_at_def substr_def split: option.splits if_splits)
    qed
  qed simp
  from this [of "bt_added t" None "set (bt_added t)"] assms
  show "pos \<le> st" "0 < len" "st + len \<le> length s" "(substr s st len, i) \<in> set (bt_added t)"
    by (simp_all add: next_special_def)
qed

function encode_loop :: "bpe \<Rightarrow> string \<Rightarrow> nat \<Rightarrow> int list \<Rightarrow> int list option" where
  "encode_loop t s pos ids =
     (if pos < length s then
        (case next_special t s pos of
           None \<Rightarrow> map_option (\<lambda>seg. ids @ seg) (encode_text_segment t (drop pos s))
         | Some (st, len, i) \<Rightarrow>
             (case (if st > pos then encode_text_segment t (substr s pos (st - pos)) else Some []) of
                None \<Rightarrow> None
              | Some seg \<Rightarrow> encode_loop t s (st + len) (ids @ seg @ [i])))
      else Some ids)"
  by pat_completeness auto
termination
proof (relation "measure (\<lambda>(t, s, pos, ids). length s - pos)")
  fix t s pos and ids :: "int list" and x st y len i seg
  assume "pos < length s" "next_special t s pos = Some x" "(st, y) = x" "(len, i) = y"
  then have "next_special t s pos = Some (st, len, i)" by simp
  from next_special_Some [OF this] \<open>pos < length s\<close>
  show "((t, s, st + len, ids @ seg @ [i]), t, s, pos, ids) \<in> measure (\<lambda>(t, s, pos, ids). length s - pos)"
    by simp
qed simp

declare encode_loop.simps [simp del]

definition bpe_encode :: "bpe \<Rightarrow> string \<Rightarrow> encode_options \<Rightarrow> int list option" where
  "bpe_encode t txt options =
     map_option (\<lambda>ids.
       let ids = (if add_eos options \<and> bt_eos_id t \<ge> 0 \<and>
              (max_tokens options \<le> 0 \<or> to_i32 (int (length ids)) < max_tokens options)
            then ids @ [bt_eos_id t] else ids)
       in if max_tokens options > 0 \<and> to_i32 (int (length ids)) > max_tokens options
          then take (nat (max_tokens options)) ids else ids)
     (encode_loop t txt 0 (if add_bos options \<and> bt_bos_id t \<ge> 0 then [bt_bos_id t] else []))"

section \<open>Decoding\<close>

definition decode_ids :: "bpe \<Rightarrow> int list \<Rightarrow> bool \<Rightarrow> string" where
  "decode_ids t ids skip_special =
     (let tokens = fold (\<lambda>i out.
            if i < 0 \<or> i \<ge> bt_vocab_size t then out
            else if skip_special \<and> bt_is_special t ! nat i then out
            else out @ bt_id_to_token t ! nat i) ids []
      in unicode_to_text (fst (utf8_decode tokens)))"

section \<open>The pre-tokenizer loop\<close>

definition matcher_forward :: "matcher \<Rightarrow> string \<Rightarrow> bool" where
  "matcher_forward m txt \<longleftrightarrow>
     (\<forall>start a b. start \<le> length txt \<longrightarrow> m txt start = Some (a, b) \<longrightarrow> start \<le> a \<and> a \<le> b \<and> b \<le> length txt)"

definition matcher_covers :: "matcher \<Rightarrow> string \<Rightarrow> bool" where
  "matcher_covers m txt \<longleftrightarrow>
     (\<forall>start < length txt. \<exists>b. m txt start = Some (start, b) \<and> start < b \<and> b \<le> length txt) \<and>
     (m txt (length txt) = None \<or> m txt (length txt) = Some (length txt, length txt))"

text \<open>The matches are disjoint parts of the text, in order: \<open>parts_from i txt chunks\<close>.\<close>

fun parts_from :: "nat \<Rightarrow> string \<Rightarrow> string list \<Rightarrow> bool" where
  "parts_from i txt [] \<longleftrightarrow> True"
| "parts_from i txt (c # cs) \<longleftrightarrow>
     (\<exists>a. i \<le> a \<and> c \<noteq> [] \<and> a + length c \<le> length txt \<and> substr txt a (length c) = c \<and> parts_from (a + length c) txt cs)"

lemma parts_from_mono: "parts_from i txt cs \<Longrightarrow> j \<le> i \<Longrightarrow> parts_from j txt cs"
  by (cases cs) (auto intro: order.trans)

lemma find_all_returns:
  assumes "matcher_forward m txt"
  shows "\<exists>chunks. find_all m txt start out = Some (out @ chunks) \<and> parts_from start txt chunks"
proof (induction "Suc (length txt) - start" arbitrary: start out rule: less_induct)
  case less
  show ?case
  proof (cases "start \<le> length txt")
    case True
    show ?thesis
    proof (cases "m txt start")
      case None
      then show ?thesis using True by (intro exI [of _ "[]"]) (simp add: find_all.simps)
    next
      case (Some ab)
      obtain a b where ab: "ab = (a, b)" by fastforce
      have f: "start \<le> a" "a \<le> b" "b \<le> length txt"
        using assms True Some unfolding ab matcher_forward_def by blast+
      show ?thesis
      proof (cases "b = a")
        case True': True
        have "Suc (length txt) - (start + 1) < Suc (length txt) - start" using True by simp
        from less [OF this, of out] obtain chunks where
          "find_all m txt (start + 1) out = Some (out @ chunks)" "parts_from (start + 1) txt chunks" by blast
        then show ?thesis
          using True Some parts_from_mono by (intro exI [of _ chunks]) (auto simp: find_all.simps [of m "txt" start] ab True')
      next
        case False
        let ?c = "substr txt a (b - a)"
        have c: "length ?c = b - a" using f by (simp add: substr_def)
        have "Suc (length txt) - b < Suc (length txt) - start" using f False True by simp
        from less [OF this, of "out @ [?c]"] obtain chunks where
          1: "find_all m txt b (out @ [?c]) = Some ((out @ [?c]) @ chunks)" "parts_from b txt chunks" by blast
        have "parts_from start txt (?c # chunks)"
          using f False 1(2) c by (auto intro!: exI [of _ a])
        then show ?thesis
          using True Some False 1(1) by (intro exI [of _ "?c # chunks"]) (simp add: find_all.simps [of m "txt" start] ab)
      qed
    qed
  next
    case False
    then show ?thesis by (intro exI [of _ "[]"]) (simp add: find_all.simps)
  qed
qed

lemma find_all_covers:
  assumes "matcher_covers m txt"
  shows "start \<le> length txt \<Longrightarrow> \<exists>chunks. find_all m txt start out = Some (out @ chunks) \<and> concat chunks = drop start txt"
proof (induction "length txt - start" arbitrary: start out rule: less_induct)
  case less
  show ?case
  proof (cases "start < length txt")
    case True
    then obtain b where b: "m txt start = Some (start, b)" "start < b" "b \<le> length txt"
      using assms by (auto simp: matcher_covers_def)
    have "length txt - b < length txt - start" using b by simp
    from less(1) [OF this b(3), of "out @ [substr txt start (b - start)]"] obtain chunks where
      "find_all m txt b (out @ [substr txt start (b - start)]) = Some (out @ [substr txt start (b - start)] @ chunks)"
      "concat chunks = drop b txt" by auto
    moreover have "substr txt start (b - start) @ drop b txt = drop start txt"
      using b(2) append_take_drop_id [of "b - start" "drop start txt"] by (simp add: substr_def)
    ultimately show ?thesis
      using True b by (intro exI [of _ "substr txt start (b - start) # chunks"]) (simp add: find_all.simps [of m "txt" start])
  next
    case False
    then have s: "start = length txt" using less.prems by simp
    have e: "find_all m txt (start + 1) out = Some out" by (simp add: s find_all.simps)
    show ?thesis
      using assms e by (intro exI [of _ "[]"]) (auto simp: s find_all.simps [of m "txt" "length txt"] matcher_covers_def)
  qed
qed

section \<open>The merge loop\<close>

definition pair_rank :: "(string \<times> string \<Rightarrow> int option) \<Rightarrow> string list \<Rightarrow> nat \<Rightarrow> int option" where
  "pair_rank ranks ps j =
     (if j + 1 < length ps then
        case ranks (ps ! j, ps ! (j + 1)) of Some r \<Rightarrow> if r < k_int32_max then Some r else None | None \<Rightarrow> None
      else None)"

text \<open>One step of BPE: the leftmost of the adjacent pairs of the lowest rank is joined.\<close>

inductive merge_step :: "(string \<times> string \<Rightarrow> int option) \<Rightarrow> string list \<Rightarrow> string list \<Rightarrow> bool"
  for ranks :: "string \<times> string \<Rightarrow> int option" where
  "pair_rank ranks ps i = Some r \<Longrightarrow> (\<And>j s. pair_rank ranks ps j = Some s \<Longrightarrow> r \<le> s) \<Longrightarrow>
   (\<And>j s. j < i \<Longrightarrow> pair_rank ranks ps j = Some s \<Longrightarrow> r < s) \<Longrightarrow> merge_step ranks ps (merge_at i ps)"

inductive_cases merge_stepE: "merge_step ranks ps qs"


definition rank_bound :: "(int \<times> nat) option \<Rightarrow> int" where
  "rank_bound best = (case best of None \<Rightarrow> k_int32_max | Some (br, _) \<Rightarrow> br)"

lemma pair_rank_Cons:
  "pair_rank ranks (a # b # ps) 0 = (case ranks (a, b) of Some r \<Rightarrow> if r < k_int32_max then Some r else None | None \<Rightarrow> None)"
  "pair_rank ranks (a # b # ps) (Suc j) = pair_rank ranks (b # ps) j"
  by (simp_all add: pair_rank_def)

lemma best_pair_min:
  assumes "rank_bound best \<le> k_int32_max"
  shows "(best_pair ranks i ps best = best \<and> (\<forall>j r. pair_rank ranks ps j = Some r \<longrightarrow> rank_bound best \<le> r)) \<or>
    (\<exists>r j. best_pair ranks i ps best = Some (r, i + j) \<and> pair_rank ranks ps j = Some r \<and> r < rank_bound best \<and>
      (\<forall>k s. pair_rank ranks ps k = Some s \<longrightarrow> r \<le> s) \<and> (\<forall>k s. k < j \<longrightarrow> pair_rank ranks ps k = Some s \<longrightarrow> r < s))"
  using assms
proof (induction ranks i ps best rule: best_pair.induct)
  case (1 ranks i a b ps best)
  define best' where "best' = (case ranks (a, b) of
      Some r \<Rightarrow> if r < rank_bound best then Some (r, i) else best | None \<Rightarrow> best)"
  have e: "best_pair ranks i (a # b # ps) best = best_pair ranks (i + 1) (b # ps) best'"
    unfolding best'_def rank_bound_def best_pair.simps Let_def ..
  have b': "rank_bound best' \<le> k_int32_max"
    using "1.prems" by (auto simp: best'_def rank_bound_def split: option.splits)
  note IH = "1.IH" [OF best'_def [unfolded rank_bound_def] b']
  have p0: "pair_rank ranks (a # b # ps) 0 = Some r \<Longrightarrow> ranks (a, b) = Some r" for r
    by (auto simp: pair_rank_Cons split: option.splits if_splits)
  have all: "(\<forall>j s. pair_rank ranks (a # b # ps) j = Some s \<longrightarrow> P j s) \<longleftrightarrow>
      (\<forall>s. pair_rank ranks (a # b # ps) 0 = Some s \<longrightarrow> P 0 s) \<and>
      (\<forall>j s. pair_rank ranks (b # ps) j = Some s \<longrightarrow> P (Suc j) s)" for P
    by (metis pair_rank_Cons(2) not0_implies_Suc)
  show ?case
  proof (cases "\<exists>r. ranks (a, b) = Some r \<and> r < rank_bound best")
    case True
    then obtain r where r: "ranks (a, b) = Some r" "r < rank_bound best" by blast
    then have bb: "best' = Some (r, i)" "rank_bound (Some (r, i)) = r" by (simp_all add: best'_def rank_bound_def)
    have p: "pair_rank ranks (a # b # ps) 0 = Some r" using r "1.prems" by (simp add: pair_rank_Cons)
    from IH [unfolded bb] show ?thesis
    proof (elim disjE exE conjE)
      assume h: "best_pair ranks (i + 1) (b # ps) (Some (r, i)) = Some (r, i)"
        "\<forall>j s. pair_rank ranks (b # ps) j = Some s \<longrightarrow> r \<le> s"
      have "\<forall>k s. pair_rank ranks (a # b # ps) k = Some s \<longrightarrow> r \<le> s" unfolding all using h(2) p by simp
      then show ?thesis unfolding e bb(1) using h(1) p r(2) by (intro disjI2 exI [of _ r] exI [of _ 0]) simp
    next
      fix r' j
      assume h: "best_pair ranks (i + 1) (b # ps) (Some (r, i)) = Some (r', i + 1 + j)"
        "pair_rank ranks (b # ps) j = Some r'" "r' < r"
        "\<forall>k s. pair_rank ranks (b # ps) k = Some s \<longrightarrow> r' \<le> s" "\<forall>k s. k < j \<longrightarrow> pair_rank ranks (b # ps) k = Some s \<longrightarrow> r' < s"
      have "\<forall>k s. pair_rank ranks (a # b # ps) k = Some s \<longrightarrow> r' \<le> s" unfolding all using h(3,4) p by simp
      moreover have "\<forall>k s. pair_rank ranks (a # b # ps) k = Some s \<longrightarrow> k < Suc j \<longrightarrow> r' < s" unfolding all using h(3,5) p by simp
      ultimately show ?thesis unfolding e bb(1) using h r(2)
        by (intro disjI2 exI [of _ r'] exI [of _ "Suc j"]) (simp add: pair_rank_Cons)
    qed
  next
    case False
    then have bb: "best' = best" by (auto simp: best'_def split: option.splits)
    have p: "\<forall>s. pair_rank ranks (a # b # ps) 0 = Some s \<longrightarrow> rank_bound best \<le> s" using False p0 by fastforce
    from IH [unfolded bb] show ?thesis
    proof (elim disjE exE conjE)
      assume h: "best_pair ranks (i + 1) (b # ps) best = best"
        "\<forall>j s. pair_rank ranks (b # ps) j = Some s \<longrightarrow> rank_bound best \<le> s"
      have "\<forall>j s. pair_rank ranks (a # b # ps) j = Some s \<longrightarrow> rank_bound best \<le> s" unfolding all using h(2) p by simp
      then show ?thesis unfolding e bb using h(1) by blast
    next
      fix r' j
      assume h: "best_pair ranks (i + 1) (b # ps) best = Some (r', i + 1 + j)"
        "pair_rank ranks (b # ps) j = Some r'" "r' < rank_bound best"
        "\<forall>k s. pair_rank ranks (b # ps) k = Some s \<longrightarrow> r' \<le> s" "\<forall>k s. k < j \<longrightarrow> pair_rank ranks (b # ps) k = Some s \<longrightarrow> r' < s"
      have "\<forall>k s. pair_rank ranks (a # b # ps) k = Some s \<longrightarrow> r' \<le> s" unfolding all using h(3,4) p by fastforce
      moreover have "\<forall>k s. pair_rank ranks (a # b # ps) k = Some s \<longrightarrow> k < Suc j \<longrightarrow> r' < s" unfolding all using h(3,5) p by fastforce
      ultimately show ?thesis unfolding e bb using h
        by (intro disjI2 exI [of _ r'] exI [of _ "Suc j"]) (simp add: pair_rank_Cons)
    qed
  qed
qed (auto simp: pair_rank_def)
lemma merge_at_props:
  assumes "i + 1 < length ps"
  shows "length (merge_at i ps) = length ps - 1" "concat (merge_at i ps) = concat ps"
proof -
  show "length (merge_at i ps) = length ps - 1" using assms by (simp add: merge_at_def)
  have "ps = take i ps @ ps ! i # ps ! (i + 1) # drop (i + 2) ps"
    using assms id_take_nth_drop [of i ps] Cons_nth_drop_Suc [of "i + 1" ps] by simp
  then have "concat ps = concat (take i ps @ ps ! i # ps ! (i + 1) # drop (i + 2) ps)" by (rule arg_cong)
  then show "concat (merge_at i ps) = concat ps" by (simp add: merge_at_def)
qed

lemma merge_loop_steps:
  "(merge_step ranks)\<^sup>*\<^sup>* ps (merge_loop ranks ps) \<and> \<not> (\<exists>qs. merge_step ranks (merge_loop ranks ps) qs)"
proof (induction "length ps" arbitrary: ps rule: less_induct)
  case less
  have small: "\<not> (\<exists>qs. merge_step ranks ps qs)" if "\<forall>j r. pair_rank ranks ps j \<noteq> Some r"
  proof
    assume "\<exists>qs. merge_step ranks ps qs"
    then show False using that by (auto elim: merge_stepE)
  qed
  from best_pair_min [of None ranks 0 ps] consider
      "best_pair ranks 0 ps None = None" "\<forall>j r. pair_rank ranks ps j = Some r \<longrightarrow> k_int32_max \<le> r"
    | r j where "best_pair ranks 0 ps None = Some (r, j)" "pair_rank ranks ps j = Some r"
      "\<And>k s. pair_rank ranks ps k = Some s \<Longrightarrow> r \<le> s" "\<And>k s. k < j \<Longrightarrow> pair_rank ranks ps k = Some s \<Longrightarrow> r < s"
    by (auto simp: rank_bound_def)
  then show ?case
  proof cases
    case 1
    have "pair_rank ranks ps j = Some r \<Longrightarrow> r < k_int32_max" for j r
      by (auto simp: pair_rank_def split: if_splits option.splits)
    with 1(2) have "\<forall>j r. pair_rank ranks ps j \<noteq> Some r" by (meson not_le)
    moreover have "merge_loop ranks ps = ps" using 1(1) by (simp add: merge_loop.simps)
    ultimately show ?thesis using small by simp
  next
    case 2
    have i: "j + 1 < length ps" using 2(2) by (simp add: pair_rank_def split: if_splits)
    then have e: "merge_loop ranks ps = merge_loop ranks (merge_at j ps)"
      using 2(1) by (simp add: merge_loop.simps [of ranks ps])
    have "merge_step ranks ps (merge_at j ps)" using 2(2-4) by (rule merge_step.intros)
    moreover have "length (merge_at j ps) < length ps" using merge_at_props(1) [OF i] i by simp
    note less [OF this]
    ultimately show ?thesis unfolding e by (meson converse_rtranclp_into_rtranclp)
  qed
qed


lemma merge_loop_concat: "concat (merge_loop ranks ps) = concat ps"
proof -
  have one: "merge_step ranks x y \<Longrightarrow> concat y = concat x" for x y
    by (auto elim!: merge_stepE simp: pair_rank_def merge_at_props split: if_splits)
  have "concat y = concat x" if "(merge_step ranks)\<^sup>*\<^sup>* x y" for x y
    using that by (induction rule: rtranclp_induct) (auto dest: one)
  then show ?thesis using merge_loop_steps by blast
qed


text \<open>
  Claim C17. The pre-tokenizer loop returns whenever the matcher only moves forward: it ends after
  finitely many matches, and the chunks are non-empty, disjoint parts of the text in order. With a
  matcher that matches at every position the chunks make up the whole text.
\<close>

theorem find_all_terminates:
  assumes "matcher_forward m txt"
  shows "\<exists>chunks. find_all m txt 0 [] = Some chunks \<and> parts_from 0 txt chunks \<and>
    (matcher_covers m txt \<longrightarrow> concat chunks = txt)"
  using find_all_returns [OF assms, of 0 "[]"] find_all_covers [of m "txt" 0 "[]"] by auto

definition word_matcher :: matcher where
  "word_matcher s start = (if start < length s then Some (start, if s ! start = CHR ''a'' then length s else Suc start) else None)"

theorem find_all_terminates_witness:
  "\<exists>chunks. find_all word_matcher ''b a'' 0 [] = Some chunks \<and> concat chunks = ''b a''"
proof -
  have "matcher_forward word_matcher ''b a''" by (auto simp: matcher_forward_def word_matcher_def split: if_splits)
  moreover have "matcher_covers word_matcher ''b a''" by (auto simp: matcher_covers_def word_matcher_def)
  ultimately show ?thesis using find_all_terminates by blast
qed
section \<open>Valid UTF-8 and splitting it\<close>

definition valid_utf8 :: "string \<Rightarrow> bool" where
  "valid_utf8 s \<longleftrightarrow> (\<exists>cps. s = utf8_string cps \<and> (\<forall>cp \<in> set cps. cp \<le> 0x1FFFFF))"

lemma multibyte_high:
  assumes "\<not> cp \<le> 0x7F" "b \<in> set (utf8_bytes cp)"
  shows "128 \<le> char_code (char_of_byte b)"
proof -
  have k: "bit (0x80 :: 32 word) 7" "bit (0xC0 :: 32 word) 7" "bit (0xE0 :: 32 word) 7" "bit (0xF0 :: 32 word) 7"
    unfolding bit_consts by (unfold bits) simp_all
  have o: "bit (to_u8 (m OR w)) 7" if "bit m 7" for m w
    using that by (simp only: bit_to_u8 bit_or_iff) simp
  have "bit b 7"
    using assms k [THEN o] by (auto simp only: utf8_bytes_def if_False list.set insert_iff empty_iff split: if_splits)
  then have "bit (unat b) 7" by (simp add: bit_unsigned_iff)
  then have "odd (unat b div 2 ^ 7)" by (simp add: bit_iff_odd)
  then have "unat b div 2 ^ 7 \<noteq> 0" by (intro notI) simp
  then have "2 ^ 7 \<le> unat b" by (simp add: div_eq_0_iff)
  moreover have "unat b < 256" using unsigned_less [of b] by simp
  ultimately show ?thesis by (simp add: char_code_def char_of_byte_def of_char_of)
qed

lemma utf8_string_Cons: "utf8_string (cp # cps) = map char_of_byte (utf8_bytes cp) @ utf8_string cps"
  by (simp add: utf8_string_concat)

lemma utf8_string_Nil [simp]: "utf8_string [] = []"
  by (simp add: utf8_string_concat)

lemma one_byte: "cp \<le> 0x7F \<Longrightarrow> length (utf8_bytes cp) = 1"
  by (simp add: utf8_bytes_def)

lemma utf8_split:
  "utf8_string cps = x @ c # y \<Longrightarrow> char_code c < 128 \<Longrightarrow> \<exists>k. x = utf8_string (take k cps) \<and> c # y = utf8_string (drop k cps)"
proof (induction cps arbitrary: x)
  case (Cons cp cps)
  let ?b = "map char_of_byte (utf8_bytes cp)"
  show ?case
  proof (cases "x = []")
    case True
    then show ?thesis using Cons.prems(1) by (intro exI [of _ 0]) simp
  next
    case False
    from Cons.prems(1) have "?b @ utf8_string cps = x @ c # y" by (simp add: utf8_string_Cons)
    then consider us where "x = ?b @ us" "utf8_string cps = us @ c # y"
      | us where "?b = x @ us" "us \<noteq> []" "us @ utf8_string cps = c # y"
      by (auto simp: append_eq_append_conv2) (metis append_Nil)
    then show ?thesis
    proof cases
      case 1
      from Cons.IH [OF 1(2) Cons.prems(2)] obtain k where "us = utf8_string (take k cps)" "c # y = utf8_string (drop k cps)" by blast
      then show ?thesis using 1(1) by (intro exI [of _ "Suc k"]) (simp add: utf8_string_Cons)
    next
      case 2
      then obtain us' where us: "us = c # us'" by (cases us) auto
      have "1 < length (utf8_bytes cp)" using arg_cong [OF 2(1), of length] False us by (cases x) auto
      then have "\<not> cp \<le> 0x7F" using one_byte by auto
      moreover have "c \<in> set ?b" unfolding 2(1) us by simp
      ultimately have "128 \<le> char_code c" using multibyte_high by auto
      then show ?thesis using Cons.prems(2) by simp
    qed
  qed
qed simp

lemma valid_utf8_Nil [simp]: "valid_utf8 []"
  unfolding valid_utf8_def by (rule exI [of _ "[]"]) simp

lemma valid_utf8_before: "valid_utf8 (x @ c # y) \<Longrightarrow> char_code c < 128 \<Longrightarrow> valid_utf8 x \<and> valid_utf8 (c # y)"
  unfolding valid_utf8_def using utf8_split [of _ x c y] by (metis in_set_dropD in_set_takeD)

lemma valid_utf8_tail: "valid_utf8 (c # y) \<Longrightarrow> char_code c < 128 \<Longrightarrow> valid_utf8 y"
proof -
  assume v: "valid_utf8 (c # y)" and c: "char_code c < 128"
  then obtain cps where cps: "c # y = utf8_string cps" "\<forall>cp \<in> set cps. cp \<le> 0x1FFFFF" by (auto simp: valid_utf8_def)
  then obtain cp cps' where cp: "cps = cp # cps'" by (cases cps) auto
  have "utf8_bytes cp \<noteq> []" by (simp add: utf8_bytes_def)
  then have "char_of_byte (hd (utf8_bytes cp)) = c"
    using cps(1) unfolding cp utf8_string_Cons by (cases "utf8_bytes cp") auto
  then have "cp \<le> 0x7F" using multibyte_high [of cp "hd (utf8_bytes cp)"] \<open>utf8_bytes cp \<noteq> []\<close> c by fastforce
  then have "length (utf8_bytes cp) = 1" by (rule one_byte)
  then have "y = utf8_string cps'"
    using cps(1) unfolding cp utf8_string_Cons by (cases "utf8_bytes cp") auto
  then show "valid_utf8 y" using cps(2) cp by (auto simp: valid_utf8_def)
qed

lemma valid_utf8_after: "valid_utf8 (c @ y) \<Longrightarrow> ascii c \<Longrightarrow> valid_utf8 y"
  by (induction c) (auto simp: ascii_def dest: valid_utf8_tail)

section \<open>Round trip\<close>

text \<open>The ids \<open>ids\<close> stand for the text \<open>s\<close>.\<close>

definition spells :: "bpe \<Rightarrow> int list \<Rightarrow> string \<Rightarrow> bool" where
  "spells t ids s \<longleftrightarrow> (\<forall>i \<in> set ids. 0 \<le> i \<and> i < bt_vocab_size t) \<and>
     (\<exists>cps. concat (map (\<lambda>i. bt_id_to_token t ! nat i) ids) = utf8_string cps \<and> (\<forall>cp \<in> set cps. cp \<le> 0x1FFFFF) \<and>
        unicode_to_text cps = s)"

lemma spells_Nil [simp]: "spells t [] []"
  unfolding spells_def by (auto intro!: exI [of _ "[]"])

lemma spells_append:
  assumes "spells t ids s" "spells t ids' s'"
  shows "spells t (ids @ ids') (s @ s')"
proof -
  from assms obtain cps cps' where
    "concat (map (\<lambda>i. bt_id_to_token t ! nat i) ids) = utf8_string cps" "\<forall>cp \<in> set cps. cp \<le> 0x1FFFFF" "unicode_to_text cps = s"
    "concat (map (\<lambda>i. bt_id_to_token t ! nat i) ids') = utf8_string cps'" "\<forall>cp \<in> set cps'. cp \<le> 0x1FFFFF"
    "unicode_to_text cps' = s'" by (auto simp: spells_def)
  then show ?thesis using assms unfolding spells_def
    by (auto intro!: exI [of _ "cps @ cps'"] simp: utf8_string_append unicode_to_text_append)
qed

lemma decode_ids_spells:
  assumes "spells t ids s"
  shows "decode_ids t ids False = s"
proof -
  have "fold (\<lambda>i out. if i < 0 \<or> i \<ge> bt_vocab_size t then out
      else if False \<and> bt_is_special t ! nat i then out else out @ bt_id_to_token t ! nat i) ids out =
      out @ concat (map (\<lambda>i. bt_id_to_token t ! nat i) ids)" if "\<forall>i \<in> set ids. 0 \<le> i \<and> i < bt_vocab_size t" for out
    using that by (induction ids arbitrary: out) auto
  then have "decode_ids t ids False = unicode_to_text (fst (utf8_decode (concat (map (\<lambda>i. bt_id_to_token t ! nat i) ids))))"
    using assms by (simp add: decode_ids_def spells_def)
  then show ?thesis using assms utf8_decode_string by (auto simp: spells_def)
qed

text \<open>What makes a byte-level BPE vocabulary complete.\<close>

definition bpe_ok :: "bpe \<Rightarrow> bool" where
  "bpe_ok t \<longleftrightarrow>
     (\<forall>k i. map_of (bt_vocab t) k = Some i \<longrightarrow> 0 \<le> i \<and> i < bt_vocab_size t \<and> bt_id_to_token t ! nat i = k) \<and>
     (\<forall>c. byte_part c \<in> dom (map_of (bt_vocab t))) \<and>
     (\<forall>a b r. bt_merge_ranks t (a, b) = Some r \<longrightarrow> a @ b \<in> dom (map_of (bt_vocab t))) \<and>
     (\<forall>(c, i) \<in> set (bt_added t). ascii c \<and> map_of (bt_vocab t) c = Some i)"

lemma byte_part_string: "byte_part c = bytes_to_unicode_string [c]"
  by (simp add: byte_part_def bytes_to_unicode_string_def)

lemma bytes_to_unicode_string_append:
  "bytes_to_unicode_string (x @ y) = bytes_to_unicode_string x @ bytes_to_unicode_string y"
  by (simp add: bytes_to_unicode_string_codes text_codes_def utf8_string_append)

lemma spells_part:
  assumes "bpe_ok t" "map_of (bt_vocab t) (bytes_to_unicode_string raw) = Some i"
  shows "spells t [i] raw"
  using assms text_codes_le unfolding spells_def bpe_ok_def
  by (auto simp: bytes_to_unicode_string_codes intro!: exI [of _ "text_codes raw"])

lemma spells_special:
  assumes "bpe_ok t" "(c, i) \<in> set (bt_added t)"
  shows "spells t [i] c"
  using assms unfolding spells_def bpe_ok_def
  by (auto simp: ascii_string unicode_to_text_ascii ascii_codes_le intro!: exI [of _ "ascii_codes c"])

lemma merge_at_map:
  assumes "i + 1 < length raws"
  shows "merge_at i (map bytes_to_unicode_string raws) = map bytes_to_unicode_string (merge_at i raws)"
  using assms by (simp add: merge_at_def take_map drop_map bytes_to_unicode_string_append)

definition vocab_parts :: "bpe \<Rightarrow> string \<Rightarrow> string list \<Rightarrow> bool" where
  "vocab_parts t chunk ps \<longleftrightarrow> set ps \<subseteq> dom (map_of (bt_vocab t)) \<and>
     (\<exists>raws. ps = map bytes_to_unicode_string raws \<and> concat raws = chunk)"

lemma vocab_parts_step:
  assumes ok: "bpe_ok t" and v: "vocab_parts t chunk ps" and s: "merge_step (bt_merge_ranks t) ps qs"
  shows "vocab_parts t chunk qs"
proof -
  obtain raws where raws: "ps = map bytes_to_unicode_string raws" "concat raws = chunk"
    using v by (auto simp: vocab_parts_def)
  obtain i r where i: "qs = merge_at i ps" "pair_rank (bt_merge_ranks t) ps i = Some r"
    using s by (auto elim: merge_stepE)
  then have l: "i + 1 < length ps" and rk: "bt_merge_ranks t (ps ! i, ps ! (i + 1)) = Some r"
    by (auto simp: pair_rank_def split: if_splits option.splits)
  have "ps ! i @ ps ! (i + 1) \<in> dom (map_of (bt_vocab t))" using ok rk by (auto simp: bpe_ok_def)
  then have "set qs \<subseteq> dom (map_of (bt_vocab t))"
    using v set_take_subset [of i ps] set_drop_subset [of "i + 2" ps]
    unfolding i(1) merge_at_def vocab_parts_def by auto
  moreover have "qs = map bytes_to_unicode_string (merge_at i raws)"
    unfolding i(1) raws(1) using l by (intro merge_at_map) (simp add: raws(1))
  moreover have "concat (merge_at i raws) = chunk"
    using merge_at_props(2) [of i raws] l raws by simp
  ultimately show ?thesis unfolding vocab_parts_def by blast
qed

lemma vocab_parts_merge_loop:
  assumes "bpe_ok t" "vocab_parts t chunk ps"
  shows "vocab_parts t chunk (merge_loop (bt_merge_ranks t) ps)"
proof -
  have "vocab_parts t chunk qs" if "(merge_step (bt_merge_ranks t))\<^sup>*\<^sup>* ps qs" for qs
    using that by (induction rule: rtranclp_induct) (use assms vocab_parts_step in blast)+
  then show ?thesis using merge_loop_steps by blast
qed

lemma spells_parts:
  assumes ok: "bpe_ok t" and v: "vocab_parts t chunk ps"
  shows "spells t (concat (map (part_ids t) ps)) chunk"
proof -
  obtain raws where raws: "ps = map bytes_to_unicode_string raws" "concat raws = chunk"
    using v by (auto simp: vocab_parts_def)
  have all: "set (map bytes_to_unicode_string rs) \<subseteq> dom (map_of (bt_vocab t)) \<Longrightarrow>
      spells t (concat (map (part_ids t) (map bytes_to_unicode_string rs))) (concat rs)" for rs
  proof (induction rs)
    case (Cons r rs)
    then obtain i where i: "map_of (bt_vocab t) (bytes_to_unicode_string r) = Some i" by auto
    then have "spells t (part_ids t (bytes_to_unicode_string r)) r" using spells_part [OF ok i] by (simp add: part_ids_def)
    from spells_append [OF this] Cons show ?case by simp
  qed simp
  have "set ps \<subseteq> dom (map_of (bt_vocab t))" using v by (simp add: vocab_parts_def)
  then show ?thesis using all [of raws] unfolding raws(1) raws(2) by (simp only:)
qed

lemma byte_parts:
  assumes "bpe_ok t"
  shows "vocab_parts t chunk (map byte_part chunk)"
proof -
  have "set (map byte_part chunk) \<subseteq> dom (map_of (bt_vocab t))" using assms by (auto simp: bpe_ok_def)
  moreover have "map byte_part chunk = map bytes_to_unicode_string (map (\<lambda>c. [c]) chunk)"
    by (simp add: byte_part_string)
  moreover have "concat (map (\<lambda>c. [c]) chunk) = chunk" by (induction chunk) simp_all
  ultimately show ?thesis unfolding vocab_parts_def by blast
qed

lemma spells_pretoken:
  assumes "bpe_ok t"
  shows "spells t (bpe_encode_pretoken t chunk) chunk"
proof (cases "length chunk = 1")
  case True
  then obtain c where "chunk = [c]" by (cases chunk) auto
  then show ?thesis using spells_parts [OF assms byte_parts [OF assms], of chunk] by (simp add: bpe_encode_pretoken_def)
next
  case False
  then show ?thesis
    using spells_parts [OF assms vocab_parts_merge_loop [OF assms byte_parts [OF assms]], of chunk]
    by (auto simp: bpe_encode_pretoken_def Let_def)
qed

lemma spells_chunks: "bpe_ok t \<Longrightarrow> spells t (concat (map (bpe_encode_pretoken t) chunks)) (concat chunks)"
  by (induction chunks) (auto intro: spells_append spells_pretoken)

lemma spells_segment:
  assumes "bpe_ok t" "matcher_covers (bt_matcher t) seg"
  shows "\<exists>ids. encode_text_segment t seg = Some ids \<and> spells t ids seg"
  using find_all_covers [OF assms(2), of 0 "[]"] spells_chunks [OF assms(1)]
  by (auto simp: encode_text_segment_def)

lemma spells_loop:
  assumes ok: "bpe_ok t" and m: "\<And>s. valid_utf8 s \<Longrightarrow> matcher_covers (bt_matcher t) s"
  shows "valid_utf8 (drop pos s) \<Longrightarrow> pos \<le> length s \<Longrightarrow> spells t ids (take pos s) \<Longrightarrow>
    \<exists>ids'. encode_loop t s pos ids = Some ids' \<and> spells t ids' s"
proof (induction "length s - pos" arbitrary: pos ids rule: less_induct)
  case less
  show ?case
  proof (cases "pos < length s")
    case False
    then show ?thesis using less.prems by (simp add: encode_loop.simps)
  next
    case True
    show ?thesis
    proof (cases "next_special t s pos")
      case None
      obtain seg where "encode_text_segment t (drop pos s) = Some seg" "spells t seg (drop pos s)"
        using spells_segment [OF ok m [OF less.prems(1)]] by blast
      then show ?thesis
        using True None spells_append [OF less.prems(3)] by (force simp: encode_loop.simps [of t s pos])
    next
      case (Some x)
      obtain st len i where x: "x = (st, len, i)" using prod_cases3 by blast
      note ns = next_special_Some [OF Some [unfolded x]]
      let ?c = "substr s st len"
      have c: "ascii ?c" using ok ns(4) by (auto simp: bpe_ok_def)
      have lc: "length ?c = len" using ns(3) by (simp add: substr_def)
      have split: "drop pos s = substr s pos (st - pos) @ ?c @ drop (st + len) s"
      proof -
        have "drop (st - pos) (drop pos s) = drop st s" using ns(1) by simp
        then have 1: "drop pos s = substr s pos (st - pos) @ drop st s"
          unfolding substr_def by (metis append_take_drop_id)
        have "drop st s = ?c @ drop (st + len) s"
          unfolding substr_def by (metis append_take_drop_id drop_drop add.commute)
        then show ?thesis using 1 by simp
      qed
      obtain c0 cs where c0: "?c = c0 # cs" using lc ns(2) by (cases ?c) auto
      have "char_code c0 < 128" using c unfolding c0 ascii_def by simp
      then have v: "valid_utf8 (substr s pos (st - pos))" "valid_utf8 (?c @ drop (st + len) s)"
        using valid_utf8_before [of "substr s pos (st - pos)" c0 "cs @ drop (st + len) s"] less.prems(1) split
        by (simp_all add: c0)
      have v': "valid_utf8 (drop (st + len) s)" using valid_utf8_after [OF v(2) c] .
      obtain seg where seg: "(if st > pos then encode_text_segment t (substr s pos (st - pos)) else Some []) = Some seg"
        "spells t seg (substr s pos (st - pos))"
      proof (cases "st > pos")
        case True
        then show thesis using that spells_segment [OF ok m [OF v(1)]] by auto
      next
        case False
        then show thesis using that by (simp add: substr_def)
      qed
      have "spells t (ids @ seg @ [i]) (take pos s @ substr s pos (st - pos) @ ?c)"
        using spells_append [OF less.prems(3) spells_append [OF seg(2) spells_special [OF ok ns(4)]]] .
      moreover have "take pos s @ substr s pos (st - pos) @ ?c = take (st + len) s"
      proof -
        have "(take pos s @ substr s pos (st - pos) @ ?c) @ drop (st + len) s = s" using split by (metis append.assoc append_take_drop_id)
        moreover have "length (take pos s @ substr s pos (st - pos) @ ?c) = st + len"
          using ns(1,3) lc by (simp add: substr_def)
        ultimately show ?thesis by (metis append_eq_conv_conj)
      qed
      ultimately have "spells t (ids @ seg @ [i]) (take (st + len) s)" by simp
      moreover have "length s - (st + len) < length s - pos" using ns(1,2,3) True by simp
      ultimately obtain ids' where "encode_loop t s (st + len) (ids @ seg @ [i]) = Some ids'" "spells t ids' s"
        using less.hyps v' ns(3) by blast
      then show ?thesis using True Some x seg(1) by (simp add: encode_loop.simps [of t s pos])
    qed
  qed
qed

lemma bpe_encodes:
  assumes "bpe_ok t" "\<And>s. valid_utf8 s \<Longrightarrow> matcher_covers (bt_matcher t) s" "valid_utf8 s"
  shows "\<exists>ids. bpe_encode t s default_options = Some ids \<and> (\<forall>i \<in> set ids. 0 \<le> i \<and> i < bt_vocab_size t) \<and>
    decode_ids t ids False = s"
proof -
  obtain ids where ids: "encode_loop t s 0 [] = Some ids" "spells t ids s"
    using spells_loop [OF assms(1,2), of 0 s "[]"] assms(3) by auto
  then have "bpe_encode t s default_options = Some ids" by (simp add: bpe_encode_def default_options_def)
  then show ?thesis using ids(2) decode_ids_spells by (auto simp: spells_def)
qed

interpretation bpe_tok: tokenizer_contract "\<lambda>s. the (bpe_encode t s default_options)" "decode_ids t" "bt_vocab_size t"
  "\<lambda>s. bpe_ok t \<and> (\<forall>s. valid_utf8 s \<longrightarrow> matcher_covers (bt_matcher t) s) \<and> valid_utf8 s"
  for t
  by unfold_locales (use bpe_encodes in fastforce)+








section \<open>What loading establishes\<close>

definition tables_ok :: "bpe \<Rightarrow> bool" where
  "tables_ok t \<longleftrightarrow> 0 \<le> bt_vocab_size t \<and> distinct (map fst (bt_vocab t)) \<and>
     (\<forall>(k, i) \<in> set (bt_vocab t) \<union> set (bt_added t). i < bt_vocab_size t) \<and>
     fst ` set (bt_added t) \<subseteq> fst ` set (bt_vocab t)"

lemma tables_ok_empty: "tables_ok empty_bpe"
  by (simp add: tables_ok_def empty_bpe_def)

lemma tables_ok_extend:
  assumes ok: "tables_ok t" and n: "bt_vocab_size t \<le> bt_vocab_size t'" "i < bt_vocab_size t'"
    and d: "distinct (map fst (bt_vocab t'))" and sub: "fst ` set (bt_added t') \<subseteq> fst ` set (bt_vocab t')"
    and v: "set (bt_vocab t') \<subseteq> insert (k, i) (set (bt_vocab t))" "set (bt_added t') \<subseteq> insert (k, i) (set (bt_added t))"
  shows "tables_ok t'"
proof -
  have "x < bt_vocab_size t'" if "(y, x) \<in> set (bt_vocab t') \<union> set (bt_added t')" for x y
  proof -
    have "(y, x) = (k, i) \<or> (y, x) \<in> set (bt_vocab t) \<union> set (bt_added t)" using that v by blast
    then have "x = i \<or> x < bt_vocab_size t" using ok unfolding tables_ok_def by blast
    then show ?thesis using n by auto
  qed
  moreover have "0 \<le> bt_vocab_size t'" using ok n by (simp add: tables_ok_def)
  ultimately show ?thesis unfolding tables_ok_def using d sub by blast
qed

lemma grow_vocab_size_Inr:
  "grow_vocab_size i t = Inr t' \<Longrightarrow> \<exists>n. t' = t\<lparr>bt_vocab_size := n\<rparr> \<and> bt_vocab_size t \<le> n \<and> i < n"
  by (auto simp: grow_vocab_size_def result_simps split: if_splits intro: exI [of _ "bt_vocab_size t"])

lemma tables_ok_entry:
  assumes "load_vocab_entry e t = Inr t'" "tables_ok t"
  shows "tables_ok t'"
proof -
  obtain key v where e: "e = (key, Some v)"
    using assms(1) by (cases e) (auto simp: load_vocab_entry_def split: option.splits)
  let ?t = "t\<lparr>bt_vocab := (if key \<in> fst ` set (bt_vocab t) then bt_vocab t else bt_vocab t @ [(key, to_i32 v)])\<rparr>"
  have "grow_vocab_size (to_i32 v) ?t = Inr t'" using assms(1) by (simp add: load_vocab_entry_def Let_def e)
  then obtain n where n: "t' = ?t\<lparr>bt_vocab_size := n\<rparr>" "bt_vocab_size t \<le> n" "to_i32 v < n"
    using grow_vocab_size_Inr by fastforce
  have "distinct (map fst (bt_vocab t))" "fst ` set (bt_added t) \<subseteq> fst ` set (bt_vocab t)"
    using assms(2) by (auto simp: tables_ok_def)
  then show ?thesis
    by (intro tables_ok_extend [OF assms(2), of t' "to_i32 v" key]) (use n in auto)
qed

lemma tables_ok_merge: "load_merge e t = Inr t' \<Longrightarrow> tables_ok t \<Longrightarrow> tables_ok t'"
proof -
  assume "load_merge e t = Inr t'" and ok: "tables_ok t"
  then have "bt_vocab t' = bt_vocab t" "bt_added t' = bt_added t" "bt_vocab_size t' = bt_vocab_size t"
    by (auto simp: load_merge_def result_simps split: prod.splits if_splits)
  then show ?thesis using ok by (simp add: tables_ok_def)
qed

lemma note_special_fields [simp]:
  "bt_vocab (note_special c i t) = bt_vocab t" "bt_added (note_special c i t) = bt_added t"
  "bt_vocab_size (note_special c i t) = bt_vocab_size t"
  by (simp_all add: note_special_def Let_def)

lemma set_AList_update: "set (AList.update k v xs) \<subseteq> insert (k, v) (set xs)"
  by (induction xs) auto

lemma fst_AList_update: "fst ` set (AList.update k v xs) = insert k (fst ` set xs)"
  by (induction xs) auto

lemma tables_ok_added:
  assumes "load_added a t = Inr t'" "tables_ok t"
  shows "tables_ok t'"
proof (cases "\<exists>v c. aj_id a = Some v \<and> aj_content a = Some c")
  case True
  then obtain v c where a: "aj_id a = Some v" "aj_content a = Some c" by blast
  let ?t = "t\<lparr>bt_vocab := AList.update c (to_i32 v) (bt_vocab t), bt_added := bt_added t @ [(c, to_i32 v)]\<rparr>"
  obtain t1 where t1: "grow_vocab_size (to_i32 v) ?t = Inr t1" "t' = (if aj_special a then note_special c (to_i32 v) t1 else t1)"
    using assms(1) by (auto simp: load_added_def a Let_def result_simps)
  obtain n where n: "t1 = ?t\<lparr>bt_vocab_size := n\<rparr>" "bt_vocab_size t \<le> n" "to_i32 v < n"
    using grow_vocab_size_Inr [OF t1(1)] by auto
  have "distinct (map fst (bt_vocab t))" "fst ` set (bt_added t) \<subseteq> fst ` set (bt_vocab t)"
    using assms(2) by (auto simp: tables_ok_def)
  then have "tables_ok t1"
    using set_AList_update [of c "to_i32 v" "bt_vocab t"] fst_AList_update [of c "to_i32 v" "bt_vocab t"] n
    by (intro tables_ok_extend [OF assms(2), of t1 "to_i32 v" c]) (auto simp: distinct_update)
  then show ?thesis unfolding t1(2) by (simp add: tables_ok_def)
next
  case False
  then show ?thesis using assms by (auto simp: load_added_def split: option.splits)
qed

lemma resolve_ids_fields [simp]:
  "bt_vocab (resolve_ids m opts t) = bt_vocab t" "bt_added (resolve_ids m opts t) = bt_added t"
  "bt_vocab_size (resolve_ids m opts t) = bt_vocab_size t"
  by (simp_all add: resolve_ids_def Let_def split: option.splits)

text \<open>The loops that fill a table by id: position \<open>j\<close> holds the value of some entry of id \<open>j\<close>.\<close>

lemma fill_table:
  fixes f :: "'k \<Rightarrow> 'a" and n :: nat
  defines "g \<equiv> \<lambda>(k, i) l. if 0 \<le> i \<and> i < int n then l[nat i := f k] else l"
  shows "length l = n \<Longrightarrow> length (fold g xs l) = n \<and>
    (\<forall>j<n. (\<exists>k. (k, int j) \<in> set xs \<and> fold g xs l ! j = f k) \<or> ((\<nexists>k. (k, int j) \<in> set xs) \<and> fold g xs l ! j = l ! j))"
proof (induction xs arbitrary: l)
  case (Cons x xs)
  obtain k i where x: "x = (k, i)" by fastforce
  have l: "length (g x l) = n" using Cons.prems by (simp add: g_def x)
  have gj: "g x l ! j = (if i = int j then f k else l ! j)" if "j < n" for j
    using that Cons.prems by (auto simp: g_def x nth_list_update)
  show ?case
    using Cons.IH [OF l] gj by (fastforce simp: x)
qed simp

lemma load_bpe_Inr:
  assumes load: "load_bpe iter srt compile file options = Inr t" and srt: "\<And>xs. mset (srt xs) = mset xs"
  shows "tables_ok t" "\<exists>t0. bt_vocab t = bt_vocab t0 \<and> bt_added t = bt_added t0 \<and> bt_vocab_size t = bt_vocab_size t0 \<and>
    bt_id_to_token t = bt_id_to_token (reverse_vocab iter t0) \<and> bt_is_special t = bt_is_special (reverse_vocab iter t0)"
proof -
  obtain doc model entries where "file = Some doc" "tj_model doc = Some model" "mj_vocab model = Some entries"
    using load by (auto simp: load_bpe_def result_simps split: option.splits)
  with load obtain t1 t2 t3 m where
    t1: "fold_result load_vocab_entry entries empty_bpe = Inr t1" and
    t2: "(case mj_merges model of None \<Rightarrow> Inr t1
       | Some ms \<Rightarrow> fold_result load_merge (zip (map int [0..<length ms]) ms) t1) = Inr t2" and
    t3: "(case tj_added doc of None \<Rightarrow> Inr t2
       | Some added \<Rightarrow> and_then (fold_result load_added added t2) (\<lambda>t. Inr (t\<lparr>bt_added := srt (bt_added t)\<rparr>))) = Inr t3" and
    t: "t = reverse_vocab iter (resolve_ids model options t3)\<lparr>bt_matcher := m\<rparr>"
    unfolding load_bpe_def Let_def option.case by (auto simp: result_simps)
  have "tables_ok t1" using fold_result_inv [where P = tables_ok, OF t1 tables_ok_empty] tables_ok_entry by blast
  then have "tables_ok t2"
    using t2 fold_result_inv [where P = tables_ok and f = load_merge] tables_ok_merge by (auto split: option.splits)
  then have "tables_ok t3"
  proof (cases "tj_added doc")
    case (Some added)
    then obtain t4 where t4: "fold_result load_added added t2 = Inr t4" "t3 = t4\<lparr>bt_added := srt (bt_added t4)\<rparr>"
      using t3 by (auto simp: result_simps)
    have "tables_ok t4"
      using fold_result_inv [where P = tables_ok, OF t4(1) \<open>tables_ok t2\<close>] tables_ok_added by blast
    then show ?thesis using mset_eq_setD [OF srt [of "bt_added t4"]] by (simp add: t4(2) tables_ok_def)
  qed (use t3 in auto)
  then show "tables_ok t" by (simp add: t tables_ok_def reverse_vocab_def Let_def)
  show "\<exists>t0. bt_vocab t = bt_vocab t0 \<and> bt_added t = bt_added t0 \<and> bt_vocab_size t = bt_vocab_size t0 \<and>
    bt_id_to_token t = bt_id_to_token (reverse_vocab iter t0) \<and> bt_is_special t = bt_is_special (reverse_vocab iter t0)"
    by (rule exI [of _ "resolve_ids model options t3"]) (simp add: t reverse_vocab_def Let_def)
qed

lemma reverse_vocab_tables:
  assumes ok: "0 \<le> bt_vocab_size t" and iter: "\<And>v. set (iter v) = set v"
  shows "length (bt_id_to_token (reverse_vocab iter t)) = nat (bt_vocab_size t)"
    "length (bt_is_special (reverse_vocab iter t)) = nat (bt_vocab_size t)"
    "(k, i) \<in> set (bt_vocab t) \<Longrightarrow> 0 \<le> i \<Longrightarrow> i < bt_vocab_size t \<Longrightarrow>
      (bt_id_to_token (reverse_vocab iter t) ! nat i, i) \<in> set (bt_vocab t)"
    "j < nat (bt_vocab_size t) \<Longrightarrow>
      bt_is_special (reverse_vocab iter t) ! j \<longleftrightarrow> int j \<in> snd ` set (bt_added t)"
proof -
  let ?n = "nat (bt_vocab_size t)"
  have n: "int ?n = bt_vocab_size t" using ok by simp
  note A = fill_table [where f = "\<lambda>tok :: string. tok" and n = ?n and l = "replicate ?n []" and xs = "iter (bt_vocab t)", unfolded n]
  note B = fill_table [where f = "\<lambda>_ :: string. True" and n = ?n and l = "replicate ?n False" and xs = "bt_added t", unfolded n]
  show "length (bt_id_to_token (reverse_vocab iter t)) = ?n" "length (bt_is_special (reverse_vocab iter t)) = ?n"
    using A B by (simp_all add: reverse_vocab_def Let_def)
  show "(bt_id_to_token (reverse_vocab iter t) ! nat i, i) \<in> set (bt_vocab t)"
    if "(k, i) \<in> set (bt_vocab t)" "0 \<le> i" "i < bt_vocab_size t" for k i
  proof -
    have j: "nat i < ?n" "int (nat i) = i" using that by simp_all
    have "\<forall>j<?n. (\<exists>k. (k, int j) \<in> set (iter (bt_vocab t)) \<and> bt_id_to_token (reverse_vocab iter t) ! j = k) \<or>
        (\<nexists>k. (k, int j) \<in> set (iter (bt_vocab t)))"
      using A by (simp add: reverse_vocab_def Let_def) blast
    from this [rule_format, OF j(1)] show ?thesis using that(1) unfolding iter j(2) by blast
  qed
  show "bt_is_special (reverse_vocab iter t) ! j \<longleftrightarrow> int j \<in> snd ` set (bt_added t)" if "j < ?n" for j
    using B that by (force simp: reverse_vocab_def Let_def)
qed

text \<open>
  Claim C19. After loading, the tables agree: both have one entry per id, every id of the
  vocabulary is below the vocabulary size, the token stored for an id is one the vocabulary maps to
  that id (the token itself when ids are not shared), the added tokens are in the vocabulary, and
  exactly the ids of added tokens are marked as skipped.
\<close>

theorem load_tables:
  assumes "load_bpe iter srt compile file options = Inr t" and "\<And>v. set (iter v) = set v" "\<And>xs. mset (srt xs) = mset xs"
  shows "length (bt_id_to_token t) = nat (bt_vocab_size t) \<and> length (bt_is_special t) = nat (bt_vocab_size t) \<and>
    distinct (map fst (bt_vocab t)) \<and> fst ` set (bt_added t) \<subseteq> fst ` set (bt_vocab t) \<and>
    (\<forall>(k, i) \<in> set (bt_vocab t). i < bt_vocab_size t \<and>
       (0 \<le> i \<longrightarrow> (bt_id_to_token t ! nat i, i) \<in> set (bt_vocab t))) \<and>
    (\<forall>j < nat (bt_vocab_size t). bt_is_special t ! j \<longleftrightarrow> int j \<in> snd ` set (bt_added t))"
proof -
  have ok: "tables_ok t" by (rule load_bpe_Inr(1) [OF assms(1,3)])
  obtain t0 where t0: "bt_vocab t = bt_vocab t0" "bt_added t = bt_added t0" "bt_vocab_size t = bt_vocab_size t0"
    "bt_id_to_token t = bt_id_to_token (reverse_vocab iter t0)" "bt_is_special t = bt_is_special (reverse_vocab iter t0)"
    using load_bpe_Inr(2) [OF assms(1,3)] by blast
  have nn: "0 \<le> bt_vocab_size t0" using ok t0(3) by (simp add: tables_ok_def)
  note R = reverse_vocab_tables [OF nn assms(2)]
  have v: "\<forall>(k, i) \<in> set (bt_vocab t). i < bt_vocab_size t" using ok unfolding tables_ok_def by blast
  have "length (bt_id_to_token t) = nat (bt_vocab_size t)" "length (bt_is_special t) = nat (bt_vocab_size t)"
    using R(1,2) by (simp_all only: t0)
  moreover have "(bt_id_to_token t ! nat i, i) \<in> set (bt_vocab t)" if "(k, i) \<in> set (bt_vocab t)" "0 \<le> i" for k i
  proof -
    have "i < bt_vocab_size t" using v that by blast
    then show ?thesis using R(3) [of k i] that by (simp only: t0)
  qed
  moreover have "bt_is_special t ! j \<longleftrightarrow> int j \<in> snd ` set (bt_added t)" if "j < nat (bt_vocab_size t)" for j
    using R(4) [of j] that by (simp only: t0)
  ultimately show ?thesis using v ok unfolding tables_ok_def by blast
qed

definition think_doc :: tokenizer_json where
  "think_doc = \<lparr> tj_model = Some \<lparr> mj_type = ''BPE'', mj_vocab = Some [(''a'', Some 0)], mj_merges = None, mj_unk_token = None \<rparr>,
     tj_added = Some [\<lparr> aj_id = Some 1, aj_content = Some ''<think>'', aj_special = False \<rparr>], tj_pre = None \<rparr>"

definition think_options :: hf_options where
  "think_options = \<lparr> ho_path = ''tokenizer.json'', ho_pad_id = - 1, ho_pad_token = ''<|pad|>'' \<rparr>"

lemma think_load:
  "\<exists>t. load_bpe (\<lambda>v. v) (\<lambda>v. v) (\<lambda>_. Inr m) (Some think_doc) think_options = Inr t \<and>
     bt_vocab_size t = 2 \<and> bt_added t = [(''<think>'', 1)]"
proof -
  have i: "to_i32 0 = 0" "to_i32 1 = 1" by (simp_all add: to_i32_id)
  show ?thesis
    by (simp add: load_bpe_def think_doc_def think_options_def load_vocab_entry_def load_added_def i grow_vocab_size_def
        empty_bpe_def resolve_ids_def reverse_vocab_def Let_def)
qed

theorem load_tables_witness:
  "\<exists>t. load_bpe (\<lambda>v. v) (\<lambda>v. v) (\<lambda>_. Inr (\<lambda>_ _. None)) (Some think_doc) think_options = Inr t \<and>
     length (bt_id_to_token t) = 2 \<and> bt_is_special t ! 1"
proof -
  obtain t where t: "load_bpe (\<lambda>v. v) (\<lambda>v. v) (\<lambda>_. Inr (\<lambda>_ _. None)) (Some think_doc) think_options = Inr t" "bt_vocab_size t = 2"
    "bt_added t = [(''<think>'', 1)]" using think_load by blast
  show ?thesis using load_tables [OF t(1)] t by auto
qed

lemma decode_ids_skip:
  assumes "0 \<le> i" "i < bt_vocab_size t" "bt_is_special t ! nat i"
  shows "decode_ids t (xs @ i # ys) True = decode_ids t (xs @ ys) True"
  using assms by (simp add: decode_ids_def)

lemma load_marks_added:
  assumes "load_bpe iter srt compile file options = Inr t" "\<And>v. set (iter v) = set v" "\<And>xs. mset (srt xs) = mset xs"
    and i: "(c, i) \<in> set (bt_added t)" "0 \<le> i"
  shows "i < bt_vocab_size t \<and> bt_is_special t ! nat i"
proof -
  obtain t0 where t0: "bt_added t = bt_added t0" "bt_vocab_size t = bt_vocab_size t0"
    "bt_is_special t = bt_is_special (reverse_vocab iter t0)" using load_bpe_Inr(2) [OF assms(1,3)] by blast
  have ok: "tables_ok t" by (rule load_bpe_Inr(1) [OF assms(1,3)])
  then have l: "i < bt_vocab_size t" "0 \<le> bt_vocab_size t0" using i(1) t0(2) unfolding tables_ok_def by auto
  have "int (nat i) \<in> snd ` set (bt_added t0)" using i unfolding t0 by force
  then show ?thesis using reverse_vocab_tables(4) [OF l(2) assms(2), of "nat i"] l(1) i(2) by (simp add: t0)
qed

text \<open>
  Claim C20. Decoding with \<^verbatim>\<open>skip_special\<close> leaves out every added token, also those
  the document declares not special: for the loader only the names BOS, EOS, PAD and UNK depend on
  that field.
\<close>

theorem added_token_skipped:
  assumes "load_bpe iter srt compile file options = Inr t" "\<And>v. set (iter v) = set v" "\<And>xs. mset (srt xs) = mset xs"
    and "(c, i) \<in> set (bt_added t)" "0 \<le> i"
  shows "decode_ids t (xs @ i # ys) True = decode_ids t (xs @ ys) True"
  using decode_ids_skip load_marks_added [OF assms] assms(5) by blast

theorem added_token_skipped_witness:
  "map aj_special (the (tj_added think_doc)) = [False] \<and>
   (\<exists>t. load_bpe (\<lambda>v. v) (\<lambda>v. v) (\<lambda>_. Inr (\<lambda>_ _. None)) (Some think_doc) think_options = Inr t \<and> decode_ids t [1] True = [])"
proof -
  obtain t where t: "load_bpe (\<lambda>v. v) (\<lambda>v. v) (\<lambda>_. Inr (\<lambda>_ _. None)) (Some think_doc) think_options = Inr t"
    "bt_added t = [(''<think>'', 1)]" using think_load by blast
  have "decode_ids t ([] @ 1 # []) True = decode_ids t ([] @ []) True"
    by (rule added_token_skipped [OF t(1)]) (simp_all add: t(2))
  then show ?thesis using t(1) by (auto simp: decode_ids_def utf8_decode_def think_doc_def)
qed

text \<open>
  Claim C21. An added token outside ASCII is not rendered verbatim: a content whose code point is one
  of the byte codes, such as U+00E9, comes out as that single byte, which is not UTF-8.
\<close>

theorem latin_special_not_verbatim:
  assumes "0 \<le> i" "i < bt_vocab_size t" "bt_id_to_token t ! nat i = utf8_string [0xE9]"
  shows "decode_ids t [i] False = [char_of (233 :: nat)] \<and> decode_ids t [i] False \<noteq> bt_id_to_token t ! nat i"
proof -
  have p: "233 \<in> set printable_bytes" unfolding printable_bytes_def by (simp only: set_append set_upt) simp
  have e: "byte_to_unicode ! 233 = 0xE9" using byte_to_unicode_printable [OF p] by simp
  have u: "uc_to_byte 0xE9 = Some 233" using uc_to_byte_table [of 233] e by simp
  have "utf8_decode (utf8_string [0xE9]) = ([0xE9], True)" by (rule utf8_decode_string) simp
  then have "decode_ids t [i] False = [char_of (233 :: nat)]"
    using assms by (simp add: decode_ids_def unicode_to_text_Cons u)
  moreover have "length (utf8_string [0xE9]) = 2" by (simp add: utf8_string_concat utf8_bytes_def)
  ultimately show ?thesis using assms(3) by fastforce
qed

theorem latin_special_not_verbatim_witness:
  "decode_ids (empty_bpe\<lparr>bt_id_to_token := [utf8_string [0xE9]], bt_vocab_size := 1\<rparr>) [0] False = [char_of (233 :: nat)]"
  by (rule latin_special_not_verbatim [THEN conjunct1]) simp_all

end
