(* ===== verification/Weight_Sync.thy ===== *)
theory Weight_Sync
  imports Collectives
begin

text \<open>
  \<^verbatim>\<open>src/distributed/weight_sync.cc\<close>: parameters are packed into buckets of one element type
  and device and of bounded size; a bucket travels as one flat tensor, by broadcast from a root to a
  group or from one rank to a peer. The three loops of the file are one loop, parameterised by what a
  flush does to the state \<open>'w\<close> of the transfer: the number of the next call and the tensors written
  so far (broadcast, receive), or the tensors handed to \<^verbatim>\<open>send\<close>. \<open>buckets\<close> is the packing as
  a function; the contracts of the transport are the locales \<open>broadcast_group\<close> and
  \<open>shard_channel\<close>.
\<close>

section \<open>Definitions\<close>

record 'v parameter_view =
  pv_name :: string
  pv_tensor :: "'v tensor option"

definition require_parameter :: "'v parameter_view \<Rightarrow> 'v tensor result" where
  "require_parameter p =
     and_then (throw_if (pv_name p = []) (InvalidArgument ''parameter name must not be empty'')) (\<lambda>_.
     case pv_tensor p of
       None \<Rightarrow> Inl (InvalidArgument (''undefined parameter: '' @ pv_name p))
     | Some t \<Rightarrow> and_then (throw_if (\<not> t_contiguous t)
         (InvalidArgument (''parameter must be contiguous: '' @ pv_name p))) (\<lambda>_. Inr t))"

fun element_size :: "scalar_type \<Rightarrow> nat" where
  "element_size KFloat32 = 4" | "element_size KFloat16 = 2" | "element_size KBFloat16 = 2"
| "element_size KFloat64 = 8" | "element_size KInt64 = 8" | "element_size KInt32 = 4"
| "element_size KUInt8 = 1" | "element_size KBool = 1"

definition tensor_bytes :: "'v tensor \<Rightarrow> int" where
  "tensor_bytes t = int (numel t * element_size (t_dtype t))"

definition require_rank_in_group :: "int \<Rightarrow> int \<Rightarrow> int list \<Rightarrow> string \<Rightarrow> unit result" where
  "require_rank_in_group rank root members name =
     and_then (throw_if (members = []) (InvalidArgument (name @ '' requires a non-empty group''))) (\<lambda>_.
     and_then (throw_if (rank \<notin> set members) (InvalidArgument (name @ '' collectives rank is not in group''))) (\<lambda>_.
     throw_if (root \<notin> set members) (InvalidArgument (name @ '' root is not in group''))))"

text \<open>
  The elements of the bucket end to end, in a tensor with the options of the first entry; every entry
  has the same options, so copying does not convert.
\<close>

definition flatten_parameter_bucket :: "'v tensor list \<Rightarrow> 'v tensor result" where
  "flatten_parameter_bucket bucket =
     and_then (throw_if (bucket = []) (InvalidArgument ''flatten_parameter_bucket requires a non-empty bucket'')) (\<lambda>_.
     Inr (vector (t_device (hd bucket)) (t_dtype (hd bucket)) (concat (map t_values bucket))))"

text \<open>The loop that copies consecutive pieces of a flat tensor into the entries of the bucket.\<close>

fun copy_back :: "'v list \<Rightarrow> nat \<Rightarrow> 'v tensor list \<Rightarrow> 'v tensor list" where
  "copy_back vs offset [] = []"
| "copy_back vs offset (t # ts) = t\<lparr>t_values := narrow offset (numel t) vs\<rparr> # copy_back vs (offset + numel t) ts"

definition flush_broadcast_bucket ::
  "'v collectives \<Rightarrow> int \<Rightarrow> int list \<Rightarrow> 'v tensor list \<Rightarrow> nat \<times> 'v tensor list \<Rightarrow> (nat \<times> 'v tensor list) result" where
  "flush_broadcast_bucket c root members bucket = (\<lambda>(call, written).
     if bucket = [] then Inr (call, written)
     else and_then (flatten_parameter_bucket bucket) (\<lambda>payload.
       and_then (c_broadcast c call payload root members) (\<lambda>synced.
       and_then (throw_if (numel synced \<noteq> numel payload \<or> t_dtype synced \<noteq> t_dtype payload)
         (RuntimeError ''broadcast returned incompatible parameter bucket'')) (\<lambda>_.
       Inr (Suc call, written @ copy_back (t_values synced) 0 bucket)))))"

definition flush_send_bucket ::
  "'v collectives \<Rightarrow> int \<Rightarrow> 'v tensor list \<Rightarrow> nat \<times> 'v tensor list \<Rightarrow> (nat \<times> 'v tensor list) result" where
  "flush_send_bucket c peer bucket = (\<lambda>(call, sent).
     if bucket = [] then Inr (call, sent)
     else and_then (flatten_parameter_bucket bucket) (\<lambda>payload.
       and_then (c_send c call payload peer) (\<lambda>_. Inr (Suc call, sent @ [payload]))))"


text \<open>The variables of the loop over the parameters.\<close>

record 'v bucket_state =
  bs_bucket :: "'v tensor list"
  bs_bytes :: int
  bs_dtype :: scalar_type
  bs_device :: device
  bs_have :: bool

definition no_bucket :: "'v bucket_state" where
  "no_bucket = \<lparr> bs_bucket = [], bs_bytes = 0, bs_dtype = KFloat32, bs_device = Cpu, bs_have = False \<rparr>"

definition starts_bucket :: "int \<Rightarrow> 'v bucket_state \<Rightarrow> 'v tensor \<Rightarrow> bool" where
  "starts_bucket bucket_bytes bs t \<longleftrightarrow>
     bs_have bs \<and> (t_dtype t \<noteq> bs_dtype bs \<or> t_device t \<noteq> bs_device bs) \<or>
     bs_have bs \<and> bs_bytes bs + tensor_bytes t > bucket_bytes"

definition push_parameter :: "'v tensor \<Rightarrow> 'v bucket_state \<Rightarrow> 'v bucket_state" where
  "push_parameter t bs =
     (let bs = (if bs_have bs then bs else bs\<lparr>bs_dtype := t_dtype t, bs_device := t_device t, bs_have := True\<rparr>)
      in bs\<lparr>bs_bucket := bs_bucket bs @ [t], bs_bytes := bs_bytes bs + tensor_bytes t\<rparr>)"

definition bucket_step ::
  "('v tensor list \<Rightarrow> 'w \<Rightarrow> 'w result) \<Rightarrow> int \<Rightarrow> 'v parameter_view \<Rightarrow> 'v bucket_state \<times> 'w \<Rightarrow>
     ('v bucket_state \<times> 'w) result" where
  "bucket_step flush bucket_bytes p = (\<lambda>(bs, w).
     and_then (require_parameter p) (\<lambda>t.
     and_then (if starts_bucket bucket_bytes bs t
        then and_then (flush (bs_bucket bs) w)
          (\<lambda>w. Inr (bs\<lparr>bs_bucket := [], bs_bytes := 0, bs_have := False\<rparr>, w))
        else Inr (bs, w)) (\<lambda>(bs, w).
     Inr (push_parameter t bs, w))))"

definition bucket_loop ::
  "('v tensor list \<Rightarrow> 'w \<Rightarrow> 'w result) \<Rightarrow> int \<Rightarrow> 'v parameter_view list \<Rightarrow> 'w \<Rightarrow> 'w result" where
  "bucket_loop flush bucket_bytes ps w =
     and_then (fold_result (bucket_step flush bucket_bytes) ps (no_bucket, w)) (\<lambda>(bs, w). flush (bs_bucket bs) w)"

text \<open>The result is the number of collectives issued so far and the parameters' tensors afterwards.\<close>

definition broadcast_parameters_from_root ::
  "'v parameter_view list \<Rightarrow> 'v collectives \<Rightarrow> nat \<Rightarrow> int \<Rightarrow> int list \<Rightarrow> int \<Rightarrow> bool \<Rightarrow> (nat \<times> 'v tensor list) result" where
  "broadcast_parameters_from_root ps c call root members bucket_bytes final_barrier =
     (if ps = [] then Inr (call, [])
      else and_then (throw_if (bucket_bytes \<le> 0)
        (InvalidArgument ''broadcast_parameters_from_root bucket_bytes must be positive'')) (\<lambda>_.
      and_then (require_rank_in_group (c_rank c) root members ''broadcast_parameters_from_root'') (\<lambda>_.
      if length members = 1 then and_then (map_result require_parameter ps) (\<lambda>ts. Inr (call, ts))
      else and_then (bucket_loop (flush_broadcast_bucket c root members) bucket_bytes ps (call, [])) (\<lambda>(call, ts).
        if final_barrier then and_then (c_barrier c call) (\<lambda>_. Inr (Suc call, ts)) else Inr (call, ts)))))"

definition module_parameter_views :: "(string \<times> 'v tensor) list \<Rightarrow> 'v parameter_view list" where
  "module_parameter_views named = map (\<lambda>(k, t). \<lparr> pv_name = k, pv_tensor = Some t \<rparr>) named"

text \<open>The result holds the messages handed to \<^verbatim>\<open>send\<close>, in order.\<close>

definition send_parameter_shards ::
  "'v parameter_view list \<Rightarrow> 'v collectives \<Rightarrow> nat \<Rightarrow> int \<Rightarrow> int \<Rightarrow> (nat \<times> 'v tensor list) result" where
  "send_parameter_shards shards c call peer bucket_bytes =
     and_then (throw_if (bucket_bytes \<le> 0)
       (InvalidArgument ''send_parameter_shards bucket_bytes must be positive'')) (\<lambda>_.
     bucket_loop (flush_send_bucket c peer) bucket_bytes shards (call, []))"


section \<open>The packing as a function\<close>

definition bytes_of :: "'v tensor list \<Rightarrow> int" where
  "bytes_of ts = sum_list (map tensor_bytes ts)"

definition fits :: "int \<Rightarrow> 'v tensor list \<Rightarrow> 'v tensor \<Rightarrow> bool" where
  "fits bucket_bytes cur t \<longleftrightarrow> t_dtype t = t_dtype (hd cur) \<and> t_device t = t_device (hd cur) \<and>
     bytes_of cur + tensor_bytes t \<le> bucket_bytes"

fun pack :: "int \<Rightarrow> 'v tensor list \<Rightarrow> 'v tensor list \<Rightarrow> 'v tensor list list" where
  "pack bucket_bytes cur [] = [cur]"
| "pack bucket_bytes cur (t # ts) =
     (if fits bucket_bytes cur t then pack bucket_bytes (cur @ [t]) ts else cur # pack bucket_bytes [t] ts)"

fun buckets :: "int \<Rightarrow> 'v tensor list \<Rightarrow> 'v tensor list list" where
  "buckets bucket_bytes [] = []"
| "buckets bucket_bytes (t # ts) = pack bucket_bytes [t] ts"

definition holds_bucket :: "'v tensor list \<Rightarrow> 'v bucket_state \<Rightarrow> bool" where
  "holds_bucket cur bs \<longleftrightarrow> bs_bucket bs = cur \<and> bs_bytes bs = bytes_of cur \<and> bs_have bs = (cur \<noteq> []) \<and>
     (cur \<noteq> [] \<longrightarrow> bs_dtype bs = t_dtype (hd cur) \<and> bs_device bs = t_device (hd cur))"

lemma holds_no_bucket: "holds_bucket [] no_bucket"
  by (simp add: holds_bucket_def no_bucket_def bytes_of_def)

lemma holds_push: "holds_bucket cur bs \<Longrightarrow> holds_bucket (cur @ [t]) (push_parameter t bs)"
  by (cases "cur = []") (auto simp: holds_bucket_def push_parameter_def bytes_of_def Let_def)

lemma holds_flushed: "holds_bucket [] (bs\<lparr>bs_bucket := [], bs_bytes := 0, bs_have := False\<rparr>)"
  by (simp add: holds_bucket_def bytes_of_def)

lemma starts_bucket_iff: "holds_bucket cur bs \<Longrightarrow> cur \<noteq> [] \<Longrightarrow> starts_bucket bb bs t \<longleftrightarrow> \<not> fits bb cur t"
  by (auto simp: holds_bucket_def starts_bucket_def fits_def)

lemma pack_loop:
  assumes "map_result require_parameter ps = Inr ts" "holds_bucket cur bs" "cur \<noteq> []"
  shows "and_then (fold_result (bucket_step flush bb) ps (bs, w)) (\<lambda>(bs, w). flush (bs_bucket bs) w) =
    fold_result flush (pack bb cur ts) w"
  using assms
proof (induction ps arbitrary: ts cur bs w)
  case Nil
  then show ?case by (cases "flush cur w") (auto simp: holds_bucket_def)
next
  case (Cons p ps)
  from Cons.prems(1) obtain t ts' where t: "require_parameter p = Inr t" "ts = t # ts'"
    and ts': "map_result require_parameter ps = Inr ts'"
    by (auto simp: result_simps)
  have cur: "bs_bucket bs = cur" using Cons.prems(2) by (simp add: holds_bucket_def)
  show ?case
  proof (cases "fits bb cur t")
    case True
    then have "\<not> starts_bucket bb bs t" using starts_bucket_iff [OF Cons.prems(2,3)] by simp
    then show ?thesis
      using Cons.IH [OF ts' holds_push [OF Cons.prems(2)], of t w] True by (simp add: bucket_step_def t)
  next
    case False
    then have "starts_bucket bb bs t" using starts_bucket_iff [OF Cons.prems(2,3)] by simp
    then show ?thesis
      using Cons.IH [OF ts' holds_push [OF holds_flushed [of bs]], of t] False
      by (cases "flush cur w") (simp_all add: bucket_step_def t cur)
  qed
qed

lemma bucket_loop_buckets:
  assumes "map_result require_parameter ps = Inr ts" "flush [] w = Inr w"
  shows "bucket_loop flush bb ps w = fold_result flush (buckets bb ts) w"
proof (cases ps)
  case Nil
  with assms show ?thesis by (simp add: bucket_loop_def no_bucket_def)
next
  case (Cons p ps')
  with assms(1) obtain t ts' where t: "require_parameter p = Inr t" "ts = t # ts'"
    and ts': "map_result require_parameter ps' = Inr ts'"
    by (auto simp: result_simps)
  have "\<not> starts_bucket bb (no_bucket :: 'a bucket_state) t" by (simp add: starts_bucket_def no_bucket_def)
  then show ?thesis
    using pack_loop [OF ts' holds_push [OF holds_no_bucket, of t], of flush bb w]
    by (simp add: Cons bucket_loop_def bucket_step_def t)
qed

text \<open>What the packing keeps: order, options and size.\<close>

definition good_bucket :: "int \<Rightarrow> 'v tensor list \<Rightarrow> bool" where
  "good_bucket bucket_bytes b \<longleftrightarrow> b \<noteq> [] \<and>
     (\<forall>t \<in> set b. t_dtype t = t_dtype (hd b) \<and> t_device t = t_device (hd b)) \<and>
     (bytes_of b \<le> bucket_bytes \<or> length b = 1)"

lemma good_bucket_single: "good_bucket bb [t]"
  by (simp add: good_bucket_def)

lemma good_bucket_push: "good_bucket bb cur \<Longrightarrow> fits bb cur t \<Longrightarrow> good_bucket bb (cur @ [t])"
proof -
  assume cur: "good_bucket bb cur" and t: "fits bb cur t"
  then have ne: "cur \<noteq> []" by (simp add: good_bucket_def)
  have "t_dtype u = t_dtype (hd cur) \<and> t_device u = t_device (hd cur)" if "u \<in> set (cur @ [t])" for u
  proof (cases "u = t")
    case True
    with t show ?thesis unfolding fits_def by blast
  next
    case False
    with that have "u \<in> set cur" by simp
    with cur show ?thesis unfolding good_bucket_def by blast
  qed
  then have 1: "\<forall>u \<in> set (cur @ [t]). t_dtype u = t_dtype (hd cur) \<and> t_device u = t_device (hd cur)" by (rule ballI)
  have 2: "bytes_of (cur @ [t]) \<le> bb" using t by (simp add: fits_def bytes_of_def)
  have 3: "hd (cur @ [t]) = hd cur" using ne by simp
  show ?thesis unfolding good_bucket_def 3 by (intro conjI disjI1 1 2) simp
qed

lemma concat_pack [simp]: "concat (pack bb cur ts) = cur @ ts"
  by (induction bb cur ts rule: pack.induct) simp_all

lemma concat_buckets [simp]: "concat (buckets bb ts) = ts"
  by (cases ts) simp_all

lemma good_pack: "good_bucket bb cur \<Longrightarrow> b \<in> set (pack bb cur ts) \<Longrightarrow> good_bucket bb b"
  by (induction bb cur ts rule: pack.induct) (auto simp: good_bucket_push good_bucket_single split: if_splits)

lemma good_buckets: "b \<in> set (buckets bb ts) \<Longrightarrow> good_bucket bb b"
  using good_pack [OF good_bucket_single] by (cases ts) simp_all

text \<open>Two lists of tensors that agree in element types, sizes and in which tensors share a device.\<close>

definition layout_rel :: "('v tensor \<Rightarrow> 'v tensor \<Rightarrow> bool) \<Rightarrow> bool" where
  "layout_rel R \<longleftrightarrow> (\<forall>t u. R t u \<longrightarrow> t_dtype t = t_dtype u \<and> numel t = numel u) \<and>
     (\<forall>t u t' u'. R t u \<longrightarrow> R t' u' \<longrightarrow> (t_device t = t_device t') = (t_device u = t_device u'))"

definition same_layout :: "'v tensor list \<Rightarrow> 'v tensor list \<Rightarrow> bool" where
  "same_layout ts us \<longleftrightarrow> length ts = length us \<and> layout_rel (\<lambda>t u. (t, u) \<in> set (zip ts us))"

lemma layout_tensor_bytes: "layout_rel R \<Longrightarrow> R t u \<Longrightarrow> tensor_bytes t = tensor_bytes u"
  by (simp add: layout_rel_def tensor_bytes_def)

lemma layout_bytes: "layout_rel R \<Longrightarrow> list_all2 R ts us \<Longrightarrow> bytes_of ts = bytes_of us"
  by (induction ts arbitrary: us) (auto simp: bytes_of_def list_all2_Cons1 layout_tensor_bytes)

lemma layout_fits:
  assumes "layout_rel R" "list_all2 R cur cur'" "R t u" "cur \<noteq> []"
  shows "fits bb cur t = fits bb cur' u"
proof -
  have "R (hd cur) (hd cur')" using assms(2,4) by (cases cur; cases cur') auto
  then have "t_dtype t = t_dtype u" "t_dtype (hd cur) = t_dtype (hd cur')"
    and "(t_device t = t_device (hd cur)) = (t_device u = t_device (hd cur'))"
    using assms(1,3) unfolding layout_rel_def by blast+
  then show ?thesis
    unfolding fits_def layout_bytes [OF assms(1,2)] layout_tensor_bytes [OF assms(1,3)] by simp
qed

lemma layout_pack:
  assumes "layout_rel R"
  shows "list_all2 R cur cur' \<Longrightarrow> list_all2 R ts us \<Longrightarrow> cur \<noteq> [] \<Longrightarrow>
    list_all2 (list_all2 R) (pack bb cur ts) (pack bb cur' us)"
proof (induction bb cur ts arbitrary: cur' us rule: pack.induct)
  case (2 bb cur t ts)
  from 2(4) obtain u us' where u: "us = u # us'" "R t u" "list_all2 R ts us'" by (cases us) auto
  have "fits bb cur t = fits bb cur' u" using layout_fits [OF assms 2(3) u(2) 2(5)] .
  moreover have "list_all2 R (cur @ [t]) (cur' @ [u])" using 2(3) u(2) by (simp add: list_all2_appendI)
  ultimately show ?case using 2 u by auto
qed simp

lemma layout_buckets:
  assumes "same_layout ts us"
  shows "list_all2 (list_all2 (\<lambda>t u. (t, u) \<in> set (zip ts us))) (buckets bb ts) (buckets bb us)"
proof -
  let ?R = "\<lambda>t u. (t, u) \<in> set (zip ts us)"
  have R: "layout_rel ?R" "list_all2 ?R ts us"
    using assms by (auto simp: same_layout_def list_all2_iff)
  show ?thesis
  proof (cases ts)
    case Nil
    with R(2) show ?thesis by simp
  next
    case (Cons t ts')
    with R(2) obtain u us' where u: "us = u # us'" by (cases us) auto
    have "list_all2 ?R [t] [u]" "list_all2 ?R ts' us'" using R(2) Cons u by auto
    then show ?thesis using layout_pack [OF R(1), of "[t]" "[u]" ts' us' bb] by (simp add: Cons u)
  qed
qed

section \<open>Flushing\<close>

definition take_values :: "'v tensor \<Rightarrow> 'v tensor \<Rightarrow> 'v tensor" where
  "take_values t u = t\<lparr>t_values := t_values u\<rparr>"

definition bucket_values :: "'v tensor list \<Rightarrow> 'v list" where
  "bucket_values b = concat (map t_values b)"

lemma copy_back_values:
  "list_all2 (\<lambda>t u. numel t = numel u) ts us \<Longrightarrow>
    copy_back (pre @ bucket_values us) (length pre) ts = map2 take_values ts us"
proof (induction arbitrary: pre rule: list_all2_induct)
  case (Cons t ts u us)
  have "narrow (length pre) (numel t) (pre @ bucket_values (u # us)) = t_values u"
    using Cons(1) by (simp add: narrow_def bucket_values_def numel_def)
  moreover have "copy_back (pre @ bucket_values (u # us)) (length pre + numel t) ts = map2 take_values ts us"
    using Cons(1) Cons(3) [of "pre @ t_values u"] by (simp add: bucket_values_def numel_def)
  ultimately show ?case by (simp add: take_values_def)
qed simp

lemmas copy_back_bucket = copy_back_values [where pre = "[]", simplified]

lemma length_bucket_values: "length (bucket_values b) = sum_list (map numel b)"
  by (simp add: bucket_values_def length_concat comp_def numel_def [abs_def])

lemma numel_eq_length: "list_all2 (\<lambda>t u. numel t = numel u) ts us \<Longrightarrow> sum_list (map numel ts) = sum_list (map numel us)"
  by (induction rule: list_all2_induct) auto

lemma map2_concat:
  "list_all2 (list_all2 R) xss yss \<Longrightarrow> concat (map2 (map2 f) xss yss) = map2 f (concat xss) (concat yss)"
  by (induction rule: list_all2_induct) (auto dest: list_all2_lengthD)

text \<open>Flushes that make one call each and write what they get.\<close>

lemma flush_buckets:
  assumes "\<And>k w. k < length bs \<Longrightarrow> f (bs ! k) (call + k, w) = Inr (Suc (call + k), w @ g k)"
  shows "fold_result f bs (call, w) = Inr (call + length bs, w @ concat (map g [0..<length bs]))"
  using assms
proof (induction bs rule: rev_induct)
  case (snoc b bs)
  have "fold_result f bs (call, w) = Inr (call + length bs, w @ concat (map g [0..<length bs]))"
  proof (rule snoc.IH)
    fix k w
    assume "k < length bs"
    then show "f (bs ! k) (call + k, w) = Inr (Suc (call + k), w @ g k)"
      using snoc.prems [of k] by (simp add: nth_append)
  qed
  then show ?case using snoc.prems [of "length bs"] by (simp add: fold_result_append)
qed simp

lemma flatten_bucket:
  "b \<noteq> [] \<Longrightarrow> flatten_parameter_bucket b = Inr (vector (t_device (hd b)) (t_dtype (hd b)) (bucket_values b))"
  by (simp add: flatten_parameter_bucket_def bucket_values_def)

lemma require_ok: "map_result require_parameter ps = Inr ts \<Longrightarrow> length ps = length ts"
  by (simp add: map_result_length)

section \<open>Broadcast\<close>

text \<open>
  What a broadcast returns: the elements the root passed to the same call, \<open>input c\<close>, provided
  every rank passes a tensor of the same type and size.
\<close>

locale broadcast_group =
  fixes cs :: "nat \<Rightarrow> 'v collectives" and members :: "int list" and root :: nat
    and calls :: "nat set" and input :: "nat \<Rightarrow> 'v list"
  assumes member_rank: "d < length members \<Longrightarrow> c_rank (cs d) = members ! d"
    and broadcast: "d < length members \<Longrightarrow> c \<in> calls \<Longrightarrow> length xs = length (input c) \<Longrightarrow>
      (d = root \<longrightarrow> xs = input c) \<Longrightarrow>
      c_broadcast (cs d) c (vector dev dt xs) (members ! root) members = Inr (vector dev dt (input c))"
    and barrier: "d < length members \<Longrightarrow> c_barrier (cs d) c = Inr ()"
begin

text \<open>The buckets of a rank whose list has the layout of the root's list.\<close>

lemma bucket_broadcast:
  assumes d: "d < length members" and c: "c \<in> calls" and b: "b \<noteq> []"
    and eq: "list_all2 (\<lambda>t u. numel t = numel u) b u" and root: "d = root \<longrightarrow> b = u"
    and inp: "input c = bucket_values u"
  shows "flush_broadcast_bucket (cs d) (members ! root) members b (c, w) = Inr (Suc c, w @ map2 take_values b u)"
proof -
  have len: "length (bucket_values b) = length (input c)"
    unfolding inp length_bucket_values using numel_eq_length [OF eq] .
  have "d = root \<longrightarrow> bucket_values b = input c" using root inp by simp
  from broadcast [OF d c len this] copy_back_bucket [OF eq] show ?thesis
    using len b inp by (simp add: flush_broadcast_bucket_def flatten_bucket)
qed

end

text \<open>The single process meets the contract for its group of one.\<close>

interpretation single_broadcast: broadcast_group "\<lambda>_. single_process empty_like" "[0]" 0 calls input
  for empty_like calls input
  by unfold_locales (auto simp: single_process_def)

lemma layout_numel:
  assumes "same_layout ts us"
  shows "list_all2 (list_all2 (\<lambda>t u. numel t = numel u)) (buckets bb ts) (buckets bb us)"
  using layout_buckets [OF assms, of bb]
proof (rule list_all2_mono, elim list_all2_mono)
  show "(t, u) \<in> set (zip ts us) \<Longrightarrow> numel t = numel u" for t u
    using assms by (simp add: same_layout_def layout_rel_def)
qed

lemma layout_written:
  assumes "same_layout ts us"
  shows "concat (map (\<lambda>k. map2 take_values (buckets bb ts ! k) (buckets bb us ! k)) [0..<length (buckets bb ts)]) =
    map2 take_values ts us"
proof -
  note l = layout_numel [OF assms, of bb]
  have "map (\<lambda>k. map2 take_values (buckets bb ts ! k) (buckets bb us ! k)) [0..<length (buckets bb ts)] =
      map2 (map2 take_values) (buckets bb ts) (buckets bb us)"
    using list_all2_lengthD [OF l] by (intro nth_equalityI) simp_all
  then show ?thesis using map2_concat [OF l, of take_values] by simp
qed

lemma broadcast_loop:
  assumes g: "broadcast_group cs members root {call..<call + length (buckets bb us)}
      (\<lambda>c. bucket_values (buckets bb us ! (c - call)))"
    and d: "d < length members" and ok: "map_result require_parameter ps = Inr ts"
    and lay: "same_layout ts us" and own: "d = root \<longrightarrow> ts = us"
  shows "bucket_loop (flush_broadcast_bucket (cs d) (members ! root) members) bb ps (call, []) =
    Inr (call + length (buckets bb us), map2 take_values ts us)"
proof -
  let ?f = "flush_broadcast_bucket (cs d) (members ! root) members"
  let ?bs = "buckets bb ts" and ?us = "buckets bb us"
  note l = layout_numel [OF lay, of bb]
  note len = list_all2_lengthD [OF l]
  have "fold_result ?f ?bs (call, []) =
      Inr (call + length ?bs, [] @ concat (map (\<lambda>k. map2 take_values (?bs ! k) (?us ! k)) [0..<length ?bs]))"
  proof (rule flush_buckets)
    fix k w
    assume k: "k < length ?bs"
    show "?f (?bs ! k) (call + k, w) = Inr (Suc (call + k), w @ map2 take_values (?bs ! k) (?us ! k))"
    proof (rule broadcast_group.bucket_broadcast [OF g d])
      show "call + k \<in> {call..<call + length ?us}" using k len by simp
      show "?bs ! k \<noteq> []" using good_buckets [OF nth_mem [OF k]] by (simp add: good_bucket_def)
      show "list_all2 (\<lambda>t u. numel t = numel u) (?bs ! k) (?us ! k)" using list_all2_nthD [OF l k] .
    qed (use own in simp_all)
  qed
  then show ?thesis
    using bucket_loop_buckets [OF ok, of ?f "(call, [])" bb] len layout_written [OF lay, of bb]
    by (simp add: flush_broadcast_bucket_def)
qed

text \<open>
  Claim C29. When every rank of a group passes a parameter list of the root's layout, then whatever
  the bucket size each rank ends with the root's elements in every one of its parameters, whose
  device, type and shape stay; all ranks issue the same number of collectives, one per bucket and
  one for the barrier.
\<close>

theorem broadcast_synchronises:
  assumes g: "broadcast_group cs members root {call..<call + length (buckets bb us)}
      (\<lambda>c. bucket_values (buckets bb us ! (c - call)))"
    and "root < length members" "d < length members" "1 < length members" "0 < bb" "ps \<noteq> []"
    and "map_result require_parameter ps = Inr ts" "same_layout ts us" "d = root \<longrightarrow> ts = us"
  shows "broadcast_parameters_from_root ps (cs d) call (members ! root) members bb final_barrier =
    Inr (call + length (buckets bb us) + (if final_barrier then 1 else 0), map2 take_values ts us)"
proof -
  have "members \<noteq> []" "length members \<noteq> 1" using assms(4) by auto
  moreover have "require_rank_in_group (c_rank (cs d)) (members ! root) members name = Inr ()" for name
    using assms(2,3) broadcast_group.member_rank [OF g, of d] by (auto simp: require_rank_in_group_def throw_if_def)
  ultimately show ?thesis
    using broadcast_loop [OF g assms(3) assms(7-9)] broadcast_group.barrier [OF g assms(3)] assms(5,6)
    by (simp add: broadcast_parameters_from_root_def throw_if_def)
qed

definition view :: "string \<Rightarrow> 'v list \<Rightarrow> 'v parameter_view" where
  "view name vs = \<lparr> pv_name = name, pv_tensor = Some (vector Cpu KFloat32 vs) \<rparr>"

definition pair_views :: "nat \<Rightarrow> int parameter_view list" where
  "pair_views d = (if d = 0 then [view ''w'' [1, 2], view ''b'' [3]] else [view ''w'' [0, 0], view ''b'' [0]])"

definition pair_tensors :: "nat \<Rightarrow> int tensor list" where
  "pair_tensors d = (if d = 0 then [vector Cpu KFloat32 [1, 2], vector Cpu KFloat32 [3]]
     else [vector Cpu KFloat32 [0, 0], vector Cpu KFloat32 [0]])"

definition pair_broadcast :: "nat \<Rightarrow> int collectives" where
  "pair_broadcast d = (single_process (\<lambda>t. t))\<lparr>c_rank := int d, c_broadcast := (\<lambda>c x root ms.
     Inr (vector (t_device x) (t_dtype x) (if c = 5 then [1, 2] else [3])))\<rparr>"

theorem broadcast_synchronises_witness:
  "broadcast_parameters_from_root (pair_views 1) (pair_broadcast 1) 5 0 [0, 1] 8 True =
    Inr (8, [vector Cpu KFloat32 [1, 2], vector Cpu KFloat32 [3 :: int]])"
proof -
  have b: "buckets 8 (pair_tensors 0) = [[vector Cpu KFloat32 [1, 2]], [vector Cpu KFloat32 [3]]]"
    by (simp add: pair_tensors_def fits_def bytes_of_def tensor_bytes_def)
  have g: "broadcast_group pair_broadcast [0, 1] 0 {5..<5 + length (buckets 8 (pair_tensors 0))}
      (\<lambda>c. bucket_values (buckets 8 (pair_tensors 0) ! (c - 5)))"
    unfolding b by unfold_locales (auto simp: pair_broadcast_def single_process_def bucket_values_def less_Suc_eq)
  have "same_layout (pair_tensors 1) (pair_tensors 0)"
    by (auto simp: same_layout_def layout_rel_def pair_tensors_def)
  moreover have "map_result require_parameter (pair_views 1) = Inr (pair_tensors 1)"
    by (simp add: pair_views_def view_def pair_tensors_def require_parameter_def)
  ultimately show ?thesis
    using broadcast_synchronises [OF g, of 1 "pair_views 1" "pair_tensors 1" True] b
    by (simp add: pair_views_def pair_tensors_def take_values_def vector_def)
qed

section \<open>Shards from one rank to another\<close>

definition message_of :: "'v tensor list \<Rightarrow> 'v tensor" where
  "message_of b = vector (t_device (hd b)) (t_dtype (hd b)) (bucket_values b)"


lemma flush_send_form:
  "flush_send_bucket c peer b (call, w) =
     (if b = [] then Inr (call, w)
      else and_then (c_send c call (message_of b) peer) (\<lambda>_. Inr (Suc call, w @ [message_of b])))"
  by (simp add: flush_send_bucket_def flatten_bucket message_of_def)

lemma sent_buckets:
  assumes "\<forall>b \<in> set bs. b \<noteq> []"
  shows "fold_result (flush_send_bucket c peer) bs (call, w) = Inr (call', w') \<Longrightarrow>
    call' = call + length bs \<and> w' = w @ map message_of bs"
  using assms
proof (induction bs arbitrary: call w)
  case (Cons b bs)
  then have "fold_result (flush_send_bucket c peer) bs (Suc call, w @ [message_of b]) = Inr (call', w')"
    by (auto simp: flush_send_form result_simps)
  from Cons.IH [OF this] Cons.prems(2) show ?case by simp
qed simp

lemma loop_requires:
  "fold_result (bucket_step flush bb) ps s = Inr s' \<Longrightarrow> \<exists>ts. map_result require_parameter ps = Inr ts"
proof (induction ps arbitrary: s)
  case (Cons p ps)
  then obtain s1 where s1: "bucket_step flush bb p s = Inr s1" "fold_result (bucket_step flush bb) ps s1 = Inr s'"
    by (auto simp: result_simps)
  from Cons.IH [OF s1(2)] obtain ts where ts: "map_result require_parameter ps = Inr ts" by blast
  moreover from s1(1) obtain t where "require_parameter p = Inr t"
    by (cases s) (auto simp: bucket_step_def result_simps)
  ultimately show ?case by simp
qed simp

lemma sent_messages:
  assumes "send_parameter_shards shards c call peer bb = Inr (call', msgs)"
  shows "0 < bb \<and> (\<exists>ts. map_result require_parameter shards = Inr ts \<and> msgs = map message_of (buckets bb ts) \<and>
    call' = call + length msgs)"
proof -
  from assms have bb: "0 < bb" and l: "bucket_loop (flush_send_bucket c peer) bb shards (call, []) = Inr (call', msgs)"
    by (auto simp: send_parameter_shards_def result_simps)
  from l obtain ts where ts: "map_result require_parameter shards = Inr ts"
    using loop_requires unfolding bucket_loop_def and_then_eq_Inr by blast
  have "fold_result (flush_send_bucket c peer) (buckets bb ts) (call, []) = Inr (call', msgs)"
    using l bucket_loop_buckets [OF ts, of "flush_send_bucket c peer" "(call, [])" bb]
    by (simp add: flush_send_form)
  from sent_buckets [OF _ this] have "call' = call + length (buckets bb ts)" "msgs = map message_of (buckets bb ts)"
    using good_buckets by (fastforce simp: good_bucket_def)+
  with bb ts show ?thesis by auto
qed

lemma message_bytes: "good_bucket bb b \<Longrightarrow> tensor_bytes (message_of b) = bytes_of b"
proof -
  assume "good_bucket bb b"
  then have dt: "t_dtype t = t_dtype (hd b)" if "t \<in> set b" for t
    using that unfolding good_bucket_def by blast
  have "bytes_of c = int (sum_list (map numel c) * element_size dt)" if "\<And>t. t \<in> set c \<Longrightarrow> t_dtype t = dt" for c :: "'a tensor list" and dt
    using that by (induction c) (simp_all add: bytes_of_def tensor_bytes_def algebra_simps)
  from this [OF dt] show ?thesis by (simp add: message_of_def tensor_bytes_def length_bucket_values)
qed

text \<open>
  Claim C30. When sending returns, every shard was valid, the messages hold the elements of the shards
  in order and without change of type, one call each, and a message is at most \<open>bucket_bytes\<close> long
  unless it is a single shard.
\<close>

theorem sent_messages_bounded:
  assumes "send_parameter_shards shards c call peer bb = Inr (call', msgs)"
  shows "\<exists>ts. map_result require_parameter shards = Inr ts \<and> call' = call + length msgs \<and>
    concat (map t_values msgs) = concat (map t_values ts) \<and>
    (\<forall>m \<in> set msgs. tensor_bytes m \<le> bb \<or>
       (\<exists>t \<in> set ts. t_values m = t_values t \<and> t_dtype m = t_dtype t \<and> t_device m = t_device t))"
proof -
  from sent_messages [OF assms] obtain ts where ts: "map_result require_parameter shards = Inr ts"
    and msgs: "msgs = map message_of (buckets bb ts)" and call': "call' = call + length msgs" by blast
  have "concat (map t_values (map message_of bs)) = concat (map t_values (concat bs))" for bs :: "'a tensor list list"
    by (induction bs) (simp_all add: message_of_def bucket_values_def)
  then have "concat (map t_values msgs) = concat (map t_values (concat (buckets bb ts)))"
    unfolding msgs .
  moreover have "tensor_bytes m \<le> bb \<or>
      (\<exists>t \<in> set ts. t_values m = t_values t \<and> t_dtype m = t_dtype t \<and> t_device m = t_device t)"
    if "m \<in> set msgs" for m
  proof -
    from that obtain b where b: "b \<in> set (buckets bb ts)" "m = message_of b" unfolding msgs by auto
    note good = good_buckets [OF b(1)]
    show ?thesis
    proof (cases "bytes_of b \<le> bb")
      case True
      then show ?thesis using message_bytes [OF good] b(2) by simp
    next
      case False
      then obtain t where t: "b = [t]" using good by (auto simp: good_bucket_def length_Suc_conv)
      have "t \<in> set b" using t by simp
      then have "t \<in> set (concat (buckets bb ts))" using b(1) unfolding set_concat by blast
      then have "t \<in> set ts" unfolding concat_buckets .
      then show ?thesis using t b(2) by (auto simp: message_of_def bucket_values_def)
    qed
  qed
  ultimately show ?thesis using ts call' by auto
qed

theorem sent_messages_bounded_witness:
  "send_parameter_shards (pair_views 0) (single_process (\<lambda>t. t)) 3 0 8 =
     Inr (5, [vector Cpu KFloat32 [1, 2], vector Cpu KFloat32 [3]]) \<and>
   concat (map t_values [vector Cpu KFloat32 [1, 2], vector Cpu KFloat32 [3 :: int]]) = [1, 2, 3]"
proof -
  have s: "send_parameter_shards (pair_views 0) (single_process (\<lambda>t. t)) 3 0 8 =
     Inr (5, [vector Cpu KFloat32 [1, 2], vector Cpu KFloat32 [3]])" by code_simp
  from sent_messages_bounded [OF s] show ?thesis using s by auto
qed







end
