(* ===== verification/Adamw.thy ===== *)
theory Adamw
  imports Flat_Tensor Complex_Main
begin

text \<open>
  \<^verbatim>\<open>src/torch/fp32_master_adamw.cc\<close>: AdamW with \<^verbatim>\<open>float\<close> master weights over a list of
  model parameters, and over one flat shard. Floating-point arithmetic is not interpreted: the
  element-wise kernels of torch and the operations on \<^verbatim>\<open>double\<close> are the fields of a record
  \<open>arith\<close>, so the results hold for IEEE rounding as for exact numbers; they compute in
  \<^verbatim>\<open>float\<close>, and a kernel on another element type converts its result with \<open>conv\<close>. The parallel vectors of the
  class \<^verbatim>\<open>Fp32MasterAdamW\<close> are one list of slots. A master weight of a contiguous
  \<^verbatim>\<open>float\<close> parameter is the parameter's own storage in the code; the operations here write the
  same elements to both, so the slot keeps them as two values. A gradient has the size of its parameter, as
  autograd makes it. An operation that throws in the middle of its loop leaves earlier slots changed
  in the code; here it only returns the exception. Step counts do not wrap.
\<close>

section \<open>Arithmetic\<close>

record ('v, 'd) arith =
  a_mul :: "'v \<Rightarrow> 'd \<Rightarrow> 'v"
  a_mul_tensor :: "'v \<Rightarrow> 'v \<Rightarrow> 'v"
  a_add_scaled :: "'v \<Rightarrow> 'v \<Rightarrow> 'd \<Rightarrow> 'v"
  a_addcmul :: "'v \<Rightarrow> 'v \<Rightarrow> 'v \<Rightarrow> 'd \<Rightarrow> 'v"
  a_addcdiv :: "'v \<Rightarrow> 'v \<Rightarrow> 'v \<Rightarrow> 'd \<Rightarrow> 'v"
  a_div :: "'v \<Rightarrow> 'd \<Rightarrow> 'v"
  a_sqrt :: "'v \<Rightarrow> 'v"
  a_add :: "'v \<Rightarrow> 'd \<Rightarrow> 'v"
  a_plus :: "'v \<Rightarrow> 'v \<Rightarrow> 'v"
  a_minus :: "'v \<Rightarrow> 'v \<Rightarrow> 'v"
  a_abs :: "'v \<Rightarrow> 'v"
  a_square :: "'v \<Rightarrow> 'v"
  a_sum :: "'v list \<Rightarrow> 'v"
  a_norm :: "'v list \<Rightarrow> 'v"
  a_item :: "'v \<Rightarrow> 'd"
  a_full :: "'d \<Rightarrow> 'v"
  a_divide :: "'v \<Rightarrow> 'v \<Rightarrow> 'v"
  a_isfinite :: "'v \<Rightarrow> bool"
  a_greater :: "'v \<Rightarrow> 'd \<Rightarrow> bool"
  d_zero :: 'd
  d_one :: 'd
  d_minus :: "'d \<Rightarrow> 'd \<Rightarrow> 'd"
  d_times :: "'d \<Rightarrow> 'd \<Rightarrow> 'd"
  d_divide :: "'d \<Rightarrow> 'd \<Rightarrow> 'd"
  d_neg :: "'d \<Rightarrow> 'd"
  d_pow :: "'d \<Rightarrow> int \<Rightarrow> 'd"
  d_less :: "'d \<Rightarrow> 'd \<Rightarrow> bool"
  d_le :: "'d \<Rightarrow> 'd \<Rightarrow> bool"
  d_eq :: "'d \<Rightarrow> 'd \<Rightarrow> bool"
  d_finite :: "'d \<Rightarrow> bool"
  d_sqrt :: "'d \<Rightarrow> 'd"
  d_1em6 :: 'd

record 'd adamw_options =
  ao_lr :: 'd
  ao_beta1 :: 'd
  ao_beta2 :: 'd
  ao_eps :: 'd
  ao_weight_decay :: 'd
  ao_use_master_weights :: bool

definition validate_adamw_options :: "('v, 'd) arith \<Rightarrow> 'd adamw_options \<Rightarrow> string \<Rightarrow> unit result" where
  "validate_adamw_options A o1 name =
     throw_if (d_less A (ao_lr o1) (d_zero A) \<or> d_less A (ao_beta1 o1) (d_zero A) \<or> d_le A (d_one A) (ao_beta1 o1) \<or>
         d_less A (ao_beta2 o1) (d_zero A) \<or> d_le A (d_one A) (ao_beta2 o1) \<or> d_le A (ao_eps o1) (d_zero A) \<or>
         d_less A (ao_weight_decay o1) (d_zero A))
       (InvalidArgument (name @ '': invalid optimizer options''))"

text \<open>A running total is undefined at first; it stays on the device of its first term.\<close>

definition add_scalar_term ::
  "('v, 'd) arith \<Rightarrow> 'v conv \<Rightarrow> device \<times> 'v \<Rightarrow> (device \<times> 'v) option \<Rightarrow> (device \<times> 'v) option" where
  "add_scalar_term A conv term sum_so_far =
     (let scalar = conv KFloat32 (snd term) in
      case sum_so_far of None \<Rightarrow> Some (fst term, scalar) | Some (dev, t) \<Rightarrow> Some (dev, a_plus A t scalar))"

definition scalar_total_to_double :: "('v, 'd) arith \<Rightarrow> (device \<times> 'v) option \<Rightarrow> 'd" where
  "scalar_total_to_double A sum_so_far = (case sum_so_far of None \<Rightarrow> d_zero A | Some (_, t) \<Rightarrow> a_item A t)"

definition scalar_total_or_zero :: "('v :: zero) conv \<Rightarrow> (device \<times> 'v) option \<Rightarrow> device \<Rightarrow> 'v tensor" where
  "scalar_total_or_zero conv sum_so_far fallback =
     (case sum_so_far of None \<Rightarrow> vector fallback KFloat32 [0] | Some (dev, t) \<Rightarrow> vector dev KFloat32 [conv KFloat32 t])"

definition clone_detached :: "'v tensor list \<Rightarrow> 'v tensor list" where
  "clone_detached parameters = map (\<lambda>p. p) parameters"

definition parameter_delta_sum ::
  "('v, 'd) arith \<Rightarrow> 'v conv \<Rightarrow> 'v tensor list \<Rightarrow> 'v tensor list \<Rightarrow> 'd result" where
  "parameter_delta_sum A conv before after =
     and_then (throw_if (length before \<noteq> length after) (InvalidArgument ''parameter_delta_sum: size mismatch'')) (\<lambda>_.
     Inr (scalar_total_to_double A (fold (\<lambda>(b, a). add_scalar_term A conv (t_device a,
         a_sum A (map2 (\<lambda>x y. a_abs A (a_minus A (conv KFloat32 x) (conv KFloat32 y))) (t_values a) (t_values b))))
       (zip before after) None)))"

section \<open>The update\<close>

text \<open>
  The moments and the parameter after one step on the gradient \<open>g\<close>; the five tensor statements in
  order. Both classes have this code.
\<close>

definition adam_update ::
  "('v, 'd) arith \<Rightarrow> 'd adamw_options \<Rightarrow> int \<Rightarrow> 'v list \<Rightarrow> 'v list \<Rightarrow> 'v list \<Rightarrow> 'v list \<Rightarrow>
     'v list \<times> 'v list \<times> 'v list" where
  "adam_update A o1 step p m v g =
     (let beta1 = ao_beta1 o1; beta2 = ao_beta2 o1;
          bias_correction1 = d_minus A (d_one A) (d_pow A beta1 step);
          bias_correction2 = d_minus A (d_one A) (d_pow A beta2 step);
          step_size = d_divide A (ao_lr o1) bias_correction1;
          m' = map2 (\<lambda>x y. a_add_scaled A (a_mul A x beta1) y (d_minus A (d_one A) beta1)) m g;
          v' = map2 (\<lambda>x y. a_addcmul A (a_mul A x beta2) y y (d_minus A (d_one A) beta2)) v g;
          p' = (if \<not> d_eq A (ao_weight_decay o1) (d_zero A)
                then map (\<lambda>x. a_add_scaled A x x (d_times A (d_neg A (ao_lr o1)) (ao_weight_decay o1))) p else p);
          denom = map (\<lambda>x. a_add A (a_sqrt A (a_div A x bias_correction2)) (ao_eps o1)) v'
      in (map2 (\<lambda>x (y, z). a_addcdiv A x y z (d_neg A step_size)) p' (zip m' denom), m', v'))"

section \<open>Master weights over a list of parameters\<close>

record 'v slot =
  sl_model :: "'v tensor"
  sl_grad :: "'v tensor option"
  sl_master :: "'v list option"
  sl_main_grad :: "'v list"
  sl_exp_avg :: "'v list"
  sl_exp_avg_sq :: "'v list"
  sl_has_main_grad :: bool

record ('v, 'd) master_adamw =
  ma_slots :: "'v slot list"
  ma_options :: "'d adamw_options"
  ma_step :: int

definition new_slot :: "('v :: zero) conv \<Rightarrow> bool \<Rightarrow> ('v tensor \<times> 'v tensor option) option \<Rightarrow> 'v slot result" where
  "new_slot conv use_master p =
     (case p of
        None \<Rightarrow> Inl (InvalidArgument ''Fp32MasterAdamW: undefined parameter'')
      | Some (t, g) \<Rightarrow>
          let master = map (conv KFloat32) (t_values t); zeros = replicate (length master) 0
          in Inr \<lparr> sl_model = t, sl_grad = g, sl_master = (if use_master then Some master else None),
               sl_main_grad = zeros, sl_exp_avg = zeros, sl_exp_avg_sq = zeros, sl_has_main_grad = False \<rparr>)"

definition new_master_adamw ::
  "('v :: zero, 'd) arith \<Rightarrow> 'v conv \<Rightarrow> ('v tensor \<times> 'v tensor option) option list \<Rightarrow> 'd adamw_options \<Rightarrow>
     ('v, 'd) master_adamw result" where
  "new_master_adamw A conv parameters o1 =
     and_then (validate_adamw_options A o1 ''Fp32MasterAdamW'') (\<lambda>_.
     and_then (map_result (new_slot conv (ao_use_master_weights o1)) parameters) (\<lambda>slots.
     Inr \<lparr> ma_slots = slots, ma_options = o1, ma_step = 0 \<rparr>))"

definition zero_tensor :: "('v :: zero) tensor \<Rightarrow> 'v tensor" where
  "zero_tensor t = t\<lparr>t_values := replicate (numel t) 0\<rparr>"

definition zero_slot :: "('v :: zero) slot \<Rightarrow> 'v slot" where
  "zero_slot s = s\<lparr>sl_grad := map_option zero_tensor (sl_grad s),
     sl_main_grad := replicate (length (sl_main_grad s)) 0, sl_has_main_grad := False\<rparr>"

definition zero_grad :: "('v :: zero, 'd) master_adamw \<Rightarrow> ('v, 'd) master_adamw" where
  "zero_grad opt = opt\<lparr>ma_slots := map zero_slot (ma_slots opt)\<rparr>"

definition accumulate_slot :: "('v :: zero, 'd) arith \<Rightarrow> 'v conv \<Rightarrow> 'd \<Rightarrow> 'v slot \<Rightarrow> 'v slot" where
  "accumulate_slot A conv scale s =
     (case sl_grad s of
        None \<Rightarrow> s
      | Some g \<Rightarrow> s\<lparr>sl_main_grad := map2 (\<lambda>x y. a_add_scaled A x (conv KFloat32 y) scale) (sl_main_grad s) (t_values g),
          sl_grad := Some (zero_tensor g), sl_has_main_grad := True\<rparr>)"

definition accumulate_model_grads ::
  "('v :: zero, 'd) arith \<Rightarrow> 'v conv \<Rightarrow> 'd \<Rightarrow> ('v, 'd) master_adamw \<Rightarrow> ('v, 'd) master_adamw" where
  "accumulate_model_grads A conv scale opt = opt\<lparr>ma_slots := map (accumulate_slot A conv scale) (ma_slots opt)\<rparr>"

text \<open>The gradient a slot is stepped with: the accumulated one, else the parameter's own.\<close>

definition slot_gradient :: "'v conv \<Rightarrow> 'v slot \<Rightarrow> 'v list option" where
  "slot_gradient conv s =
     (if sl_has_main_grad s then Some (sl_main_grad s)
      else map_option (\<lambda>g. map (conv KFloat32) (t_values g)) (sl_grad s))"

definition step_slot :: "('v, 'd) arith \<Rightarrow> 'v conv \<Rightarrow> 'd adamw_options \<Rightarrow> int \<Rightarrow> 'v slot \<Rightarrow> 'v slot" where
  "step_slot A conv o1 step s =
     (case slot_gradient conv s of
        None \<Rightarrow> s
      | Some grad \<Rightarrow>
          let master = (if ao_use_master_weights o1 then the (sl_master s) else map (conv KFloat32) (t_values (sl_model s)));
              (master', m, v) = adam_update A o1 step master (sl_exp_avg s) (sl_exp_avg_sq s) grad;
              model = sl_model s
          in s\<lparr>sl_exp_avg := m, sl_exp_avg_sq := v,
               sl_master := (if ao_use_master_weights o1 then Some master' else sl_master s),
               sl_model := model\<lparr>t_values := map (conv (t_dtype model)) master'\<rparr>\<rparr>)"

definition adamw_step :: "('v, 'd) arith \<Rightarrow> 'v conv \<Rightarrow> ('v, 'd) master_adamw \<Rightarrow> ('v, 'd) master_adamw" where
  "adamw_step A conv opt =
     (let step = ma_step opt + 1
      in opt\<lparr>ma_step := step, ma_slots := map (step_slot A conv (ma_options opt) step) (ma_slots opt)\<rparr>)"

definition fallback_device :: "('v, 'd) master_adamw \<Rightarrow> device" where
  "fallback_device opt = (if ma_slots opt = [] then Cpu else t_device (sl_model (last (ma_slots opt))))"

text \<open>The loop over the gradients that adds one scalar per gradient.\<close>

definition gradient_total ::
  "('v, 'd) arith \<Rightarrow> 'v conv \<Rightarrow> ('v list \<Rightarrow> 'v) \<Rightarrow> ('v, 'd) master_adamw \<Rightarrow> (device \<times> 'v) option" where
  "gradient_total A conv f opt =
     fold (\<lambda>s sum_so_far. case slot_gradient conv s of
         None \<Rightarrow> sum_so_far
       | Some grad \<Rightarrow> add_scalar_term A conv (t_device (sl_model s), f grad) sum_so_far) (ma_slots opt) None"

definition grad_l2_norm_sq_tensor :: "('v :: zero, 'd) arith \<Rightarrow> 'v conv \<Rightarrow> ('v, 'd) master_adamw \<Rightarrow> 'v tensor" where
  "grad_l2_norm_sq_tensor A conv opt =
     scalar_total_or_zero conv (gradient_total A conv (\<lambda>g. a_sum A (map (a_square A) g)) opt) (fallback_device opt)"

definition grad_l2_norm_sq :: "('v :: zero, 'd) arith \<Rightarrow> 'v conv \<Rightarrow> ('v, 'd) master_adamw \<Rightarrow> 'd" where
  "grad_l2_norm_sq A conv opt = a_item A (hd (t_values (grad_l2_norm_sq_tensor A conv opt)))"

definition grad_norm_sum_tensor :: "('v :: zero, 'd) arith \<Rightarrow> 'v conv \<Rightarrow> ('v, 'd) master_adamw \<Rightarrow> 'v tensor" where
  "grad_norm_sum_tensor A conv opt =
     scalar_total_or_zero conv (gradient_total A conv (a_norm A) opt) (fallback_device opt)"

definition grad_norm_sum :: "('v :: zero, 'd) arith \<Rightarrow> 'v conv \<Rightarrow> ('v, 'd) master_adamw \<Rightarrow> 'd" where
  "grad_norm_sum A conv opt = a_item A (hd (t_values (grad_norm_sum_tensor A conv opt)))"

definition scale_slot :: "('v \<Rightarrow> 'v) \<Rightarrow> (scalar_type \<Rightarrow> 'v \<Rightarrow> 'v) \<Rightarrow> 'v slot \<Rightarrow> 'v slot" where
  "scale_slot f_main f_grad s =
     (if sl_has_main_grad s then s\<lparr>sl_main_grad := map f_main (sl_main_grad s)\<rparr>
      else s\<lparr>sl_grad := map_option (\<lambda>g. g\<lparr>t_values := map (f_grad (t_dtype g)) (t_values g)\<rparr>) (sl_grad s)\<rparr>)"

definition scale_gradients ::
  "('v, 'd) arith \<Rightarrow> 'v conv \<Rightarrow> 'd \<Rightarrow> ('v, 'd) master_adamw \<Rightarrow> ('v, 'd) master_adamw result" where
  "scale_gradients A conv scale opt =
     and_then (throw_if (\<not> d_finite A scale \<or> d_less A scale (d_zero A))
       (InvalidArgument ''Fp32MasterAdamW::scale_gradients: invalid scale'')) (\<lambda>_.
     Inr (opt\<lparr>ma_slots := map (scale_slot (\<lambda>x. a_mul A x scale) (\<lambda>dt x. conv dt (a_mul A x scale))) (ma_slots opt)\<rparr>))"

definition scale_gradients_tensor ::
  "('v, 'd) arith \<Rightarrow> 'v conv \<Rightarrow> 'v tensor option \<Rightarrow> ('v, 'd) master_adamw \<Rightarrow> ('v, 'd) master_adamw result" where
  "scale_gradients_tensor A conv scale opt =
     (case scale of
        None \<Rightarrow> Inl (InvalidArgument ''Fp32MasterAdamW::scale_gradients: tensor scale must be a defined scalar'')
      | Some t \<Rightarrow> and_then (throw_if (numel t \<noteq> 1)
          (InvalidArgument ''Fp32MasterAdamW::scale_gradients: tensor scale must be a defined scalar'')) (\<lambda>_.
          let x = hd (t_values t) in
          Inr (opt\<lparr>ma_slots := map (scale_slot (\<lambda>y. a_mul_tensor A y (conv KFloat32 x))
            (\<lambda>dt y. conv dt (a_mul_tensor A y (conv dt x)))) (ma_slots opt)\<rparr>)))"

section \<open>Restoring the state\<close>

definition load_slot ::
  "('v :: zero) conv \<Rightarrow> bool \<Rightarrow> 'v tensor option \<times> 'v tensor option \<times> 'v tensor option \<Rightarrow> 'v slot \<Rightarrow> 'v slot result" where
  "load_slot conv use_master vals s =
     (let (pv, mv, vv) = vals; shape = t_shape (sl_model s) in
      and_then (throw_if (case pv of None \<Rightarrow> True | Some t \<Rightarrow> t_shape t \<noteq> shape)
        (InvalidArgument ''Fp32MasterAdamW::load_state: parameter shape mismatch'')) (\<lambda>_.
      and_then (throw_if ((case mv of None \<Rightarrow> True | Some t \<Rightarrow> t_shape t \<noteq> shape) \<or>
            (case vv of None \<Rightarrow> True | Some t \<Rightarrow> t_shape t \<noteq> shape))
        (InvalidArgument ''Fp32MasterAdamW::load_state: optimizer state shape mismatch'')) (\<lambda>_.
      let p = t_values (the pv);
          master = map (conv KFloat32) p;
          model = (if use_master then map (conv (t_dtype (sl_model s))) master else map (conv (t_dtype (sl_model s))) p)
      in Inr (s\<lparr>sl_master := (if use_master then Some master else sl_master s),
           sl_model := (sl_model s)\<lparr>t_values := model\<rparr>,
           sl_exp_avg := map (conv KFloat32) (t_values (the mv)),
           sl_exp_avg_sq := map (conv KFloat32) (t_values (the vv)),
           sl_main_grad := replicate (length (sl_main_grad s)) 0, sl_has_main_grad := False,
           sl_grad := map_option zero_tensor (sl_grad s)\<rparr>))))"

definition load_state ::
  "('v :: zero) conv \<Rightarrow> 'v tensor option list \<Rightarrow> 'v tensor option list \<Rightarrow> 'v tensor option list \<Rightarrow> int \<Rightarrow>
     ('v, 'd) master_adamw \<Rightarrow> ('v, 'd) master_adamw result" where
  "load_state conv values exp_avg exp_avg_sq step opt =
     and_then (throw_if (step < 0) (InvalidArgument ''Fp32MasterAdamW::load_state: negative step'')) (\<lambda>_.
     and_then (throw_if (length values \<noteq> length (ma_slots opt) \<or> length exp_avg \<noteq> length (ma_slots opt) \<or>
         length exp_avg_sq \<noteq> length (ma_slots opt))
       (InvalidArgument ''Fp32MasterAdamW::load_state: state size mismatch'')) (\<lambda>_.
     and_then (map_result (\<lambda>(vals, s). load_slot conv (ao_use_master_weights (ma_options opt)) vals s)
         (zip (zip values (zip exp_avg exp_avg_sq)) (ma_slots opt))) (\<lambda>slots.
     Inr (opt\<lparr>ma_slots := slots, ma_step := step\<rparr>))))"

section \<open>One flat shard\<close>

record ('v, 'd) flat_adamw =
  fa_shard :: "'v tensor"
  fa_exp_avg :: "'v list"
  fa_exp_avg_sq :: "'v list"
  fa_options :: "'d adamw_options"
  fa_step :: int

definition new_flat_adamw ::
  "('v :: zero, 'd) arith \<Rightarrow> 'v conv \<Rightarrow> 'v tensor option \<Rightarrow> 'd adamw_options \<Rightarrow> ('v, 'd) flat_adamw result" where
  "new_flat_adamw A conv shard o1 =
     and_then (validate_adamw_options A o1 ''FlatAdamW'') (\<lambda>_.
     case shard of
       None \<Rightarrow> Inl (InvalidArgument ''FlatAdamW: parameter shard must be contiguous'')
     | Some t \<Rightarrow> and_then (throw_if (\<not> t_contiguous t)
         (InvalidArgument ''FlatAdamW: parameter shard must be contiguous'')) (\<lambda>_.
         Inr \<lparr> fa_shard = (if ao_use_master_weights o1
                 then t\<lparr>t_dtype := KFloat32, t_values := map (conv KFloat32) (t_values t)\<rparr> else t),
               fa_exp_avg = replicate (numel t) 0, fa_exp_avg_sq = replicate (numel t) 0,
               fa_options = o1, fa_step = 0 \<rparr>))"


definition flat_load_state ::
  "'v conv \<Rightarrow> 'v tensor option \<Rightarrow> 'v tensor option \<Rightarrow> 'v tensor option \<Rightarrow> int \<Rightarrow> ('v, 'd) flat_adamw \<Rightarrow>
     ('v, 'd) flat_adamw result" where
  "flat_load_state conv value exp_avg exp_avg_sq step opt =
     (let ok = (\<lambda>x. case x of None \<Rightarrow> False | Some t \<Rightarrow> numel t = numel (fa_shard opt)) in
      and_then (throw_if (step < 0) (InvalidArgument ''FlatAdamW::load_state: negative step'')) (\<lambda>_.
      and_then (throw_if (\<not> ok value \<or> \<not> ok exp_avg \<or> \<not> ok exp_avg_sq)
        (InvalidArgument ''FlatAdamW::load_state: state shape mismatch'')) (\<lambda>_.
      let dt = (if ao_use_master_weights (fa_options opt) then KFloat32 else t_dtype (fa_shard opt))
      in Inr (opt\<lparr>fa_shard := (fa_shard opt)\<lparr>t_values := map (conv dt) (t_values (the value))\<rparr>,
           fa_exp_avg := map (conv KFloat32) (t_values (the exp_avg)),
           fa_exp_avg_sq := map (conv KFloat32) (t_values (the exp_avg_sq)), fa_step := step\<rparr>))))"

section \<open>Sizes\<close>

lemma length_adam_update:
  assumes "adam_update A o1 step p m v g = (p', m', v')" "length m = length p" "length v = length p" "length g = length p"
  shows "length p' = length p" "length m' = length p" "length v' = length p"
  using assms by (auto simp: adam_update_def Let_def)

definition slot_ok :: "bool \<Rightarrow> 'v slot \<Rightarrow> bool" where
  "slot_ok use_master s \<longleftrightarrow>
     (let n = numel (sl_model s) in
      prod_list (t_shape (sl_model s)) = n \<and> length (sl_main_grad s) = n \<and>
      length (sl_exp_avg s) = n \<and> length (sl_exp_avg_sq s) = n \<and>
      (case sl_master s of None \<Rightarrow> \<not> use_master | Some ms \<Rightarrow> use_master \<and> length ms = n) \<and>
      (case sl_grad s of None \<Rightarrow> True | Some g \<Rightarrow> numel g = n))"

definition well_formed :: "('v, 'd) master_adamw \<Rightarrow> bool" where
  "well_formed opt \<longleftrightarrow> list_all (slot_ok (ao_use_master_weights (ma_options opt))) (ma_slots opt) \<and> 0 \<le> ma_step opt"

definition tensor_ok :: "'v tensor \<Rightarrow> bool" where
  "tensor_ok t \<longleftrightarrow> prod_list (t_shape t) = numel t"

text \<open>Autograd writes gradients of the parameters' sizes between the optimizer's operations.\<close>

definition backward :: "'v tensor option list \<Rightarrow> ('v, 'd) master_adamw \<Rightarrow> ('v, 'd) master_adamw" where
  "backward gs opt = opt\<lparr>ma_slots := map2 (\<lambda>g s. s\<lparr>sl_grad := g\<rparr>) gs (ma_slots opt)\<rparr>"

definition gradients_fit :: "'v tensor option list \<Rightarrow> ('v, 'd) master_adamw \<Rightarrow> bool" where
  "gradients_fit gs opt \<longleftrightarrow>
     list_all2 (\<lambda>g s. case g of None \<Rightarrow> True | Some t \<Rightarrow> numel t = numel (sl_model s)) gs (ma_slots opt)"

text \<open>The states an optimizer can be in: the constructor, then operations in any order.\<close>

inductive adamw_reachable ::
  "('v :: zero, 'd) arith \<Rightarrow> 'v conv \<Rightarrow> ('v, 'd) master_adamw \<Rightarrow> bool" for A conv where
  construct: "new_master_adamw A conv ps o1 = Inr opt \<Longrightarrow>
    list_all (\<lambda>p. case p of None \<Rightarrow> True | Some (t, g) \<Rightarrow> tensor_ok t \<and> (case g of None \<Rightarrow> True | Some u \<Rightarrow> numel u = numel t)) ps \<Longrightarrow>
    adamw_reachable A conv opt"
| autograd: "adamw_reachable A conv opt \<Longrightarrow> gradients_fit gs opt \<Longrightarrow> adamw_reachable A conv (backward gs opt)"
| zero: "adamw_reachable A conv opt \<Longrightarrow> adamw_reachable A conv (zero_grad opt)"
| accumulate: "adamw_reachable A conv opt \<Longrightarrow> adamw_reachable A conv (accumulate_model_grads A conv scale opt)"
| step: "adamw_reachable A conv opt \<Longrightarrow> adamw_reachable A conv (adamw_step A conv opt)"
| scale: "adamw_reachable A conv opt \<Longrightarrow> scale_gradients A conv x opt = Inr opt' \<Longrightarrow> adamw_reachable A conv opt'"
| scale_tensor: "adamw_reachable A conv opt \<Longrightarrow> scale_gradients_tensor A conv x opt = Inr opt' \<Longrightarrow> adamw_reachable A conv opt'"
| load: "adamw_reachable A conv opt \<Longrightarrow> load_state conv pvs mvs vvs n opt = Inr opt' \<Longrightarrow>
    list_all (\<lambda>x. case x of None \<Rightarrow> True | Some t \<Rightarrow> tensor_ok t) (pvs @ mvs @ vvs) \<Longrightarrow> adamw_reachable A conv opt'"

lemma numel_zero_tensor [simp]: "numel (zero_tensor t) = numel t"
  by (simp add: zero_tensor_def numel_def)

lemma numel_update [simp]: "numel (t\<lparr>t_values := vs\<rparr>) = length vs"
  by (simp add: numel_def)

lemma slot_ok_zero: "slot_ok b s \<Longrightarrow> slot_ok b (zero_slot s)"
  by (auto simp: slot_ok_def zero_slot_def Let_def split: option.splits)

lemma slot_ok_accumulate: "slot_ok b s \<Longrightarrow> slot_ok b (accumulate_slot A conv scale s)"
  by (auto simp: slot_ok_def accumulate_slot_def Let_def numel_def zero_tensor_def split: option.splits)

lemma slot_gradient_length: "slot_ok b s \<Longrightarrow> slot_gradient conv s = Some g \<Longrightarrow> length g = numel (sl_model s)"
  by (auto simp: slot_ok_def slot_gradient_def Let_def numel_def split: if_splits option.splits)

lemma slot_ok_step:
  assumes "slot_ok (ao_use_master_weights o1) s"
  shows "slot_ok (ao_use_master_weights o1) (step_slot A conv o1 n s)"
proof (cases "slot_gradient conv s")
  case (Some g)
  let ?p = "if ao_use_master_weights o1 then the (sl_master s) else map (conv KFloat32) (t_values (sl_model s))"
  obtain p' m' v' where u: "adam_update A o1 n ?p (sl_exp_avg s) (sl_exp_avg_sq s) g = (p', m', v')"
    by (metis prod_cases3)
  have "length ?p = numel (sl_model s)"
    using assms by (auto simp: slot_ok_def Let_def numel_def split: option.splits)
  then have "length p' = numel (sl_model s)" "length m' = numel (sl_model s)" "length v' = numel (sl_model s)"
    using length_adam_update [OF u] assms slot_gradient_length [OF assms Some] by (simp_all add: slot_ok_def Let_def)
  then show ?thesis
    using assms by (auto simp: step_slot_def Some u slot_ok_def Let_def split: option.splits)
qed (use assms in \<open>simp add: step_slot_def\<close>)

lemma slot_ok_scale: "slot_ok b s \<Longrightarrow> slot_ok b (scale_slot f g s)"
  by (auto simp: slot_ok_def scale_slot_def Let_def numel_def split: option.splits)

lemma slot_ok_load:
  assumes "load_slot conv b vals s = Inr s'" "slot_ok b s"
    and "\<And>t. fst vals = Some t \<or> fst (snd vals) = Some t \<or> snd (snd vals) = Some t \<Longrightarrow> tensor_ok t"
  shows "slot_ok b s'"
proof -
  obtain pv mv vv where vals: "vals = (pv, mv, vv)" by (metis prod_cases3)
  from assms(1) obtain p m v where some: "pv = Some p" "mv = Some m" "vv = Some v"
    and shapes: "t_shape p = t_shape (sl_model s)" "t_shape m = t_shape (sl_model s)" "t_shape v = t_shape (sl_model s)"
    by (auto simp: vals load_slot_def result_simps Let_def split: option.splits)
  have "prod_list (t_shape (sl_model s)) = numel (sl_model s)" using assms(2) by (simp add: slot_ok_def Let_def)
  moreover have "tensor_ok p" "tensor_ok m" "tensor_ok v" using assms(3) unfolding vals some by simp_all
  ultimately have "length (t_values p) = numel (sl_model s)" "length (t_values m) = numel (sl_model s)"
    "length (t_values v) = numel (sl_model s)"
    using shapes by (simp_all add: tensor_ok_def numel_def)
  then show ?thesis
    using assms(1,2) by (auto simp: vals some load_slot_def result_simps Let_def slot_ok_def split: option.splits)
qed

lemma load_well_formed:
  assumes "load_state conv pvs mvs vvs n opt = Inr opt'" "well_formed opt"
    and "list_all (\<lambda>x. case x of None \<Rightarrow> True | Some t \<Rightarrow> tensor_ok t) (pvs @ mvs @ vvs)"
  shows "well_formed opt'"
proof -
  let ?b = "ao_use_master_weights (ma_options opt)"
  from assms(1) obtain slots where n: "0 \<le> n"
    and slots: "map_result (\<lambda>(vals, s). load_slot conv ?b vals s) (zip (zip pvs (zip mvs vvs)) (ma_slots opt)) = Inr slots"
    and opt': "opt' = opt\<lparr>ma_slots := slots, ma_step := n\<rparr>"
    by (auto simp: load_state_def result_simps)
  have load: "slot_ok ?b s'" if "x \<in> set (zip (zip pvs (zip mvs vvs)) (ma_slots opt))" "(\<lambda>(vals, s). load_slot conv ?b vals s) x = Inr s'" for x s'
  proof -
    obtain pv mv vv s where x: "x = ((pv, mv, vv), s)" by (cases x) auto
    have "pv \<in> set pvs" "mv \<in> set mvs" "vv \<in> set vvs" and smem: "s \<in> set (ma_slots opt)"
      using that(1) unfolding x by (blast dest: set_zip_leftD set_zip_rightD)+
    have t: "tensor_ok t" if "pv = Some t \<or> mv = Some t \<or> vv = Some t" for t
    proof -
      from that \<open>pv \<in> set pvs\<close> \<open>mv \<in> set mvs\<close> \<open>vv \<in> set vvs\<close> have "Some t \<in> set (pvs @ mvs @ vvs)" by auto
      from bspec [OF assms(3) [unfolded list_all_iff] this] show ?thesis by simp
    qed
    have "slot_ok ?b s" using smem assms(2) by (simp add: well_formed_def list_all_iff)
    from slot_ok_load [OF _ this, of conv "(pv, mv, vv)" s'] that(2) t show ?thesis by (simp add: x)
  qed
  from map_result_all [OF slots load] show ?thesis using n by (simp add: well_formed_def opt')
qed

lemma new_slot_ok:
  assumes "new_slot conv b p = Inr s"
    and "case p of None \<Rightarrow> True | Some (t, g) \<Rightarrow> tensor_ok t \<and> (case g of None \<Rightarrow> True | Some u \<Rightarrow> numel u = numel t)"
  shows "slot_ok b s"
proof -
  from assms(1) obtain t g where p: "p = Some (t, g)" by (cases p) (auto simp: new_slot_def)
  have s: "s = \<lparr> sl_model = t, sl_grad = g, sl_master = (if b then Some (map (conv KFloat32) (t_values t)) else None),
      sl_main_grad = replicate (numel t) 0, sl_exp_avg = replicate (numel t) 0, sl_exp_avg_sq = replicate (numel t) 0,
      sl_has_main_grad = False \<rparr>"
    using assms(1) by (simp add: p new_slot_def Let_def numel_def)
  show ?thesis
    using assms(2) unfolding s p by (cases g) (simp_all add: slot_ok_def Let_def tensor_ok_def numel_def)
qed

lemma new_well_formed:
  assumes "new_master_adamw A conv ps o1 = Inr opt"
    and "list_all (\<lambda>p. case p of None \<Rightarrow> True | Some (t, g) \<Rightarrow> tensor_ok t \<and> (case g of None \<Rightarrow> True | Some u \<Rightarrow> numel u = numel t)) ps"
  shows "well_formed opt"
proof -
  let ?b = "ao_use_master_weights o1"
  from assms(1) obtain slots where slots: "map_result (new_slot conv ?b) ps = Inr slots"
    and opt: "opt = \<lparr> ma_slots = slots, ma_options = o1, ma_step = 0 \<rparr>"
    by (auto simp: new_master_adamw_def result_simps)
  have "list_all (slot_ok ?b) slots"
    by (rule map_result_all [OF slots]) (use assms(2) new_slot_ok in \<open>unfold list_all_iff, blast\<close>)
  then show ?thesis by (simp add: well_formed_def opt)
qed

text \<open>
  Claim C32. In every state an optimizer can reach from its constructor, by any sequence of operations
  and backward passes, every slot's gradient accumulator, moments and master weight have the size of
  its parameter, and a master weight is there exactly when the options ask for it.
\<close>

theorem adamw_reachable_well_formed:
  "adamw_reachable A conv opt \<Longrightarrow> well_formed opt"
proof (induction rule: adamw_reachable.induct)
  case (construct ps o1 opt)
  then show ?case by (rule new_well_formed)
next
  case (autograd opt gs)
  then have "list_all2 (\<lambda>g s. slot_ok (ao_use_master_weights (ma_options opt)) (s\<lparr>sl_grad := g\<rparr>)) gs (ma_slots opt)"
    unfolding gradients_fit_def well_formed_def list_all2_conv_all_nth list_all_length
    by (auto simp: slot_ok_def Let_def split: option.splits)
  then show ?case
    using autograd(3) by (auto simp: backward_def well_formed_def list_all_length list_all2_conv_all_nth)
next
  case (load opt pvs mvs vvs n opt')
  then show ?case using load_well_formed by blast
qed (auto simp: well_formed_def zero_grad_def accumulate_model_grads_def adamw_step_def Let_def scale_gradients_def
    scale_gradients_tensor_def result_simps list_all_iff slot_ok_zero slot_ok_accumulate slot_ok_step slot_ok_scale
    split: option.splits)

text \<open>Exact real arithmetic, for the examples.\<close>

definition real_arith :: "(real, real) arith" where
  "real_arith = \<lparr> a_mul = (*), a_mul_tensor = (*), a_add_scaled = (\<lambda>x y s. x + s * y), a_addcmul = (\<lambda>x y z s. x + s * y * z),
     a_addcdiv = (\<lambda>x y z s. x + s * (y / z)), a_div = (/), a_sqrt = sqrt, a_add = (+), a_plus = (+), a_minus = (-),
     a_abs = abs, a_square = (\<lambda>x. x * x), a_sum = sum_list, a_norm = (\<lambda>xs. sqrt (sum_list (map (\<lambda>x. x * x) xs))),
     a_item = (\<lambda>x. x), a_full = (\<lambda>x. x), a_divide = (/), a_isfinite = (\<lambda>_. True), a_greater = (>), d_zero = 0, d_one = 1, d_minus = (-), d_times = (*), d_divide = (/), d_neg = uminus,
     d_pow = (\<lambda>x n. x ^ nat n), d_less = (<), d_le = (\<le>), d_eq = (=), d_finite = (\<lambda>_. True), d_sqrt = sqrt, d_1em6 = 1 / 1000000 \<rparr>"

definition real_options :: "real adamw_options" where
  "real_options = \<lparr> ao_lr = 1 / 10, ao_beta1 = 1 / 2, ao_beta2 = 3 / 4, ao_eps = 1 / 100, ao_weight_decay = 0,
     ao_use_master_weights = True \<rparr>"

definition real_state :: "(real, real) master_adamw" where
  "real_state = \<lparr> ma_slots = [\<lparr> sl_model = vector Cpu KFloat32 [1, 2], sl_grad = Some (vector Cpu KFloat32 [3, 4]),
       sl_master = Some [1, 2], sl_main_grad = [0, 0], sl_exp_avg = [0, 0], sl_exp_avg_sq = [0, 0], sl_has_main_grad = False \<rparr>],
     ma_options = real_options, ma_step = 0 \<rparr>"

lemma real_state_new:
  "new_master_adamw real_arith (\<lambda>_ x. x) [Some (vector Cpu KFloat32 [1, 2], Some (vector Cpu KFloat32 [3, 4]))] real_options =
    Inr real_state"
  by (simp add: new_master_adamw_def validate_adamw_options_def real_arith_def real_options_def real_state_def
      new_slot_def Let_def throw_if_def numeral_2_eq_2)

lemma real_state_reachable: "adamw_reachable real_arith (\<lambda>_ x. x) real_state"
  by (rule adamw_reachable.construct [OF real_state_new]) (simp add: tensor_ok_def vector_def numel_def)

theorem adamw_reachable_well_formed_witness:
  "well_formed (adamw_step real_arith (\<lambda>_ x. x) (accumulate_model_grads real_arith (\<lambda>_ x. x) 1 (zero_grad real_state)))"
  by (rule adamw_reachable_well_formed [of real_arith "\<lambda>_ x. x"], intro adamw_reachable.step adamw_reachable.accumulate adamw_reachable.zero
      real_state_reachable)

section \<open>The two optimizers agree\<close>

lemma adam_update_Nil [simp]: "adam_update A o1 n [] [] [] [] = ([], [], [])"
  by (simp add: adam_update_def Let_def)









section \<open>Checkpoints\<close>







end
