(* ===== verification/Gsm8k_Reward.thy ===== *)
theory Gsm8k_Reward
  imports Cxx_String
begin

text \<open>
  The rule-based reward of \<^verbatim>\<open>src/reward/gsm8k.cc\<close>: extraction of a final answer from a
  solution (after the last \<^verbatim>\<open>####\<close> marker, or the last numeric token), normalisation of
  the gold answer, and scoring. A score is a value of any type \<open>'d\<close> (\<^verbatim>\<open>double\<close> in
  the code, which only stores and returns it). \<open>regex_tokens\<close> is the regular expression the
  comments of the code refer to, as a reference definition.
\<close>

section \<open>Scanning\<close>

definition is_number_char :: "char \<Rightarrow> bool" where
  "is_number_char c \<longleftrightarrow> is_digit c \<or> c = CHR ''.'' \<or> c = CHR '','' \<or> c = CHR ''-''"

definition clip_tail :: "string \<Rightarrow> nat \<Rightarrow> string" where
  "clip_tail s max_len = (if length s \<le> max_len then s else drop (length s - max_len) s)"

definition strip_format_chars :: "string \<Rightarrow> string" where
  "strip_format_chars s = filter (\<lambda>c. c \<noteq> CHR '','' \<and> c \<noteq> CHR ''$'') s"

function find_number_tokens :: "string \<Rightarrow> string list" where
  "find_number_tokens [] = []"
| "find_number_tokens (c # cs) =
     (if is_number_char c
      then (c # takeWhile is_number_char cs) # find_number_tokens (dropWhile is_number_char cs)
      else find_number_tokens cs)"
  by pat_completeness auto
termination
  by (relation "measure length") (auto intro: le_imp_less_Suc length_dropWhile_le)

definition answer_marker :: string where
  "answer_marker = ''#### ''"

lemma length_answer_marker [simp]: "length answer_marker = 5"
  by (simp add: answer_marker_def)

text \<open>The number right after position \<open>i\<close>, and the loop over the markers from \<open>pos\<close> on.\<close>

definition number_at :: "string \<Rightarrow> nat \<Rightarrow> string" where
  "number_at s i = takeWhile is_number_char (drop i s)"

lemma number_at_fits: "i \<le> length s \<Longrightarrow> i + length (number_at s i) \<le> length s"
  using length_takeWhile_le [of is_number_char "drop i s"] by (simp add: number_at_def)

function strict_loop :: "string \<Rightarrow> nat \<Rightarrow> string option \<Rightarrow> string option" where
  "strict_loop s pos found =
     (case str_find s answer_marker pos of
        None \<Rightarrow> found
      | Some hit \<Rightarrow>
          let start = hit + length answer_marker;
              number = number_at s start
          in strict_loop s (start + length number) (if number \<noteq> [] then Some number else found))"
  by pat_completeness auto
termination
proof (relation "measure (\<lambda>(s, pos, found). Suc (length s) - pos)")
  fix s pos and found :: "string option" and hit start number
  assume h: "str_find s answer_marker pos = Some hit" and start: "start = hit + length answer_marker"
    and number: "number = number_at s start"
  have "pos \<le> hit" "hit + 5 \<le> length s" using str_find_Some [OF h] by simp_all
  then show "((s, start + length number, if number \<noteq> [] then Some number else found), s, pos, found)
      \<in> measure (\<lambda>(s, pos, found). Suc (length s) - pos)"
    by (simp add: start)
qed simp

declare strict_loop.simps [simp del]

definition extract_strict :: "string \<Rightarrow> string option" where
  "extract_strict s = strict_loop s 0 None"

section \<open>Extraction and scoring\<close>

datatype extraction_method = Strict | Flexible

record 'd reward_options =
  ro_method :: extraction_method
  ro_correct_score :: 'd
  ro_format_score :: 'd
  ro_no_answer_score :: 'd
  ro_solution_clip_chars :: nat

definition extract_gsm8k_answer :: "string \<Rightarrow> extraction_method \<Rightarrow> nat \<Rightarrow> string option" where
  "extract_gsm8k_answer solution method clip_chars =
     (let clipped = clip_tail solution clip_chars in
      case method of
        Strict \<Rightarrow> map_option strip_format_chars (extract_strict clipped)
      | Flexible \<Rightarrow> find (\<lambda>tok. tok \<noteq> [] \<and> tok \<noteq> ''.'') (rev (find_number_tokens clipped)))"

text \<open>The default number of characters kept, used for gold answers.\<close>

definition default_clip_chars :: nat where
  "default_clip_chars = 300"

definition normalize_gsm8k_ground_truth :: "string \<Rightarrow> string" where
  "normalize_gsm8k_ground_truth gold =
     (case extract_gsm8k_answer gold Strict default_clip_chars of
        Some answer \<Rightarrow> answer
      | None \<Rightarrow> filter (\<lambda>c. \<not> is_space c \<and> c \<noteq> CHR '','' \<and> c \<noteq> CHR ''$'') gold)"

definition compute_gsm8k_reward :: "string \<Rightarrow> string \<Rightarrow> 'd reward_options \<Rightarrow> 'd" where
  "compute_gsm8k_reward solution ground_truth options =
     (case extract_gsm8k_answer solution (ro_method options) (ro_solution_clip_chars options) of
        None \<Rightarrow> ro_no_answer_score options
      | Some answer \<Rightarrow>
          if answer = normalize_gsm8k_ground_truth ground_truth then ro_correct_score options
          else ro_format_score options)"

definition compute_gsm8k_rewards :: "string list \<Rightarrow> string list \<Rightarrow> 'd reward_options \<Rightarrow> 'd list result" where
  "compute_gsm8k_rewards solutions ground_truths options =
     and_then (throw_if (length solutions \<noteq> length ground_truths)
       (InvalidArgument ''compute_gsm8k_rewards: size mismatch'')) (\<lambda>_.
     Inr (map (\<lambda>i. compute_gsm8k_reward (solutions ! i) (ground_truths ! i) options) [0..<length solutions]))"

section \<open>The strict extractor\<close>

lemma number_at_chars: "c \<in> set (number_at s i) \<Longrightarrow> is_number_char c"
  unfolding number_at_def by (rule set_takeWhileD [THEN conjunct2])

lemma occurs_at_nth: "occurs_at pat s i \<Longrightarrow> k < length pat \<Longrightarrow> s ! (i + k) = pat ! k \<and> i + k < length s"
proof -
  assume o: "occurs_at pat s i" and k: "k < length pat"
  then have t: "take (length pat) (drop i s) = pat" by (simp add: occurs_at_def)
  then have "length pat \<le> length s - i" by (metis length_drop length_take min.absorb_iff2 min.commute)
  moreover have "take (length pat) (drop i s) ! k = pat ! k" using t by simp
  ultimately show ?thesis using k by simp
qed

text \<open>No marker starts inside a marker or inside the number after it.\<close>

lemma no_marker_inside:
  assumes i: "occurs_at answer_marker s i" and j: "occurs_at answer_marker s j" "i < j"
  shows "i + 5 + length (number_at s (i + 5)) \<le> j"
proof (rule ccontr)
  assume "\<not> ?thesis"
  then have lt: "j < i + 5 + length (number_at s (i + 5))" by simp
  have hash: "s ! (j + k) = CHR ''#''" if "k < 4" for k
    using occurs_at_nth [OF j(1), of k] that by (auto simp: answer_marker_def less_Suc_eq numeral_eq_Suc)
  show False
  proof (cases "j < i + 5")
    case True
    have "s ! (i + 4) = CHR '' ''" using occurs_at_nth [OF i, of 4] by (simp add: answer_marker_def)
    moreover have "i + 4 = j + (i + 4 - j)" "i + 4 - j < 4" using True j(2) by simp_all
    ultimately show False using hash [of "i + 4 - j"] by simp
  next
    case False
    let ?n = "number_at s (i + 5)" and ?k = "j - (i + 5)"
    have k: "?k < length ?n" using lt False by simp
    then have "?n ! ?k = drop (i + 5) s ! ?k" unfolding number_at_def by (rule takeWhile_nth)
    also have "\<dots> = s ! j" using False k number_at_fits [of "i + 5" s] occurs_at_nth [OF i, of 4] by simp
    finally have "is_number_char (s ! j)" using number_at_chars [of "?n ! ?k"] k by (metis nth_mem)
    then show False using hash [of 0] by (simp add: is_number_char_def is_digit_def char_code_def)
  qed
qed

text \<open>\<open>last_number s pos r\<close>: \<open>r\<close> is the number after the last marker from \<open>pos\<close> on that has one.\<close>

definition last_number :: "string \<Rightarrow> nat \<Rightarrow> string option \<Rightarrow> bool" where
  "last_number s pos r \<longleftrightarrow>
     (case r of
        None \<Rightarrow> \<forall>i\<ge>pos. occurs_at answer_marker s i \<longrightarrow> number_at s (i + 5) = []
      | Some n \<Rightarrow> n \<noteq> [] \<and> (\<exists>i\<ge>pos. occurs_at answer_marker s i \<and> n = number_at s (i + 5) \<and>
          (\<forall>j>i. occurs_at answer_marker s j \<longrightarrow> number_at s (j + 5) = [])))"

lemma strict_loop_last:
  "\<exists>r. last_number s pos r \<and> strict_loop s pos found = (case r of None \<Rightarrow> found | Some n \<Rightarrow> Some n)"
proof (induction s pos found rule: strict_loop.induct)
  case (1 s pos found)
  show ?case
  proof (cases "str_find s answer_marker pos")
    case None
    have "\<not> occurs_at answer_marker s i" if "pos \<le> i" for i
    proof
      assume o: "occurs_at answer_marker s i"
      have "i + 5 \<le> length s" using occurs_at_nth [OF o, of 4] by simp
      then show False using None that o unfolding str_find_None by simp
    qed
    then show ?thesis using None by (intro exI [of _ None]) (simp add: last_number_def strict_loop.simps)
  next
    case (Some hit)
    let ?n = "number_at s (hit + 5)"
    let ?pos = "hit + 5 + length ?n"
    note f = str_find_Some [OF Some] str_find_first [OF Some]
    have later: "occurs_at answer_marker s j \<Longrightarrow> pos \<le> j \<Longrightarrow> j = hit \<or> ?pos \<le> j" for j
      using f(4) [of j] no_marker_inside [OF f(3), of j] by (cases "j < hit") (auto simp: not_less le_less)
    obtain r where r: "last_number s ?pos r"
      "strict_loop s ?pos (if ?n \<noteq> [] then Some ?n else found) = (case r of None \<Rightarrow> if ?n \<noteq> [] then Some ?n else found | Some n \<Rightarrow> Some n)"
      using "1.IH" [OF Some refl refl, unfolded length_answer_marker] by blast
    have e: "strict_loop s pos found = strict_loop s ?pos (if ?n \<noteq> [] then Some ?n else found)"
      using Some by (simp add: strict_loop.simps [of s pos] Let_def)
    show ?thesis
    proof (cases r)
      case (Some n)
      with r(1) obtain i where "n \<noteq> []" "?pos \<le> i" "occurs_at answer_marker s i" "n = number_at s (i + 5)"
        "\<forall>j>i. occurs_at answer_marker s j \<longrightarrow> number_at s (j + 5) = []" by (auto simp: last_number_def)
      then have "last_number s pos (Some n)"
        using f(1) by (auto simp: last_number_def intro!: exI [of _ i])
      then show ?thesis using Some e r(2) by (intro exI [of _ "Some n"]) simp
    next
      case None
      then have none: "\<forall>j\<ge>?pos. occurs_at answer_marker s j \<longrightarrow> number_at s (j + 5) = []"
        using r(1) unfolding last_number_def by (simp only: option.case)
      have "last_number s pos (if ?n \<noteq> [] then Some ?n else None)"
      proof (cases "?n = []")
        case True
        have "number_at s (j + 5) = []" if "pos \<le> j" "occurs_at answer_marker s j" for j
        proof (cases "j = hit")
          case j: True
          show ?thesis unfolding j by (rule True)
        next
          case False
          then have "?pos \<le> j" using later [OF that(2,1)] by simp
          then show ?thesis using none that(2) by blast
        qed
        then show ?thesis using True by (simp add: last_number_def)
      next
        case False
        have "number_at s (j + 5) = []" if "hit < j" "occurs_at answer_marker s j" for j
        proof -
          have "pos \<le> j" "j \<noteq> hit" using f(1) that(1) by simp_all
          then have "?pos \<le> j" using later [OF that(2)] by simp
          then show ?thesis using none that(2) by blast
        qed
        then show ?thesis using False f(1,3) by (auto simp: last_number_def)
      qed
      then show ?thesis using None e r(2) by (intro exI [of _ "if ?n \<noteq> [] then Some ?n else None"]) simp
    qed
  qed
qed

lemma extract_strict_last: "last_number s 0 (extract_strict s)"
  using strict_loop_last [of s 0 None] by (auto simp: extract_strict_def split: option.splits)

lemma last_number_unique:
  assumes "last_number s pos r" "last_number s pos r'"
  shows "r = r'"
proof (cases r)
  case None
  then show ?thesis using assms by (cases r') (auto simp: last_number_def)
next
  case (Some n)
  then obtain i where i: "n \<noteq> []" "pos \<le> i" "occurs_at answer_marker s i" "n = number_at s (i + 5)"
    "\<And>j. i < j \<Longrightarrow> occurs_at answer_marker s j \<Longrightarrow> number_at s (j + 5) = []"
    using assms(1) by (auto simp: last_number_def)
  then obtain n' i' where r': "r' = Some n'" and i': "n' \<noteq> []" "pos \<le> i'" "occurs_at answer_marker s i'" "n' = number_at s (i' + 5)"
    "\<And>j. i' < j \<Longrightarrow> occurs_at answer_marker s j \<Longrightarrow> number_at s (j + 5) = []"
    using assms(2) by (cases r') (auto simp: last_number_def)
  have "\<not> i < i'" using i(5) [of i'] i' by blast
  moreover have "\<not> i' < i" using i'(5) [of i] i by blast
  ultimately have "i = i'" by simp
  then show ?thesis using Some r' i(4) i'(4) by simp
qed

text \<open>
  Claim C22. The strict extractor returns the number after the last answer marker that is followed
  by one, and nothing exactly when no marker is, although it scans the text once and skips the
  numbers it reads.
\<close>

theorem extract_strict_correct: "last_number s 0 r \<longleftrightarrow> r = extract_strict s"
  using last_number_unique extract_strict_last by metis

text \<open>A text whose final answer is \<open>g\<close>, within the characters that are kept.\<close>

definition answers :: "nat \<Rightarrow> string \<Rightarrow> string \<Rightarrow> bool" where
  "answers clip s g \<longleftrightarrow>
     (\<exists>pre rest. s = pre @ answer_marker @ g @ rest \<and> g \<noteq> [] \<and> (\<forall>c \<in> set g. is_number_char c) \<and>
        (rest = [] \<or> \<not> is_number_char (hd rest)) \<and> CHR ''#'' \<notin> set rest \<and>
        length (answer_marker @ g @ rest) \<le> clip)"

lemma answers_strict:
  assumes "answers clip s g"
  shows "extract_strict (clip_tail s clip) = Some g"
proof -
  obtain pre rest where s: "s = pre @ answer_marker @ g @ rest" and g: "g \<noteq> []" "\<forall>c \<in> set g. is_number_char c"
    and rest: "rest = [] \<or> \<not> is_number_char (hd rest)" "CHR ''#'' \<notin> set rest"
    and fits: "length (answer_marker @ g @ rest) \<le> clip"
    using assms unfolding answers_def by blast
  obtain p where p: "clip_tail s clip = p @ answer_marker @ g @ rest"
    using fits by (cases "length s \<le> clip") (auto simp: clip_tail_def s)
  let ?s = "p @ answer_marker @ g @ rest"
  have o: "occurs_at answer_marker ?s (length p)" by (simp add: occurs_at_def)
  have n: "number_at ?s (length p + 5) = g"
  proof -
    have "drop (length p + 5) ?s = g @ rest" by (simp add: answer_marker_def)
    then show ?thesis
      using g(2) rest(1) by (cases rest) (auto simp: number_at_def takeWhile_append)
  qed
  have "\<not> occurs_at answer_marker ?s j" if "length p < j" for j
  proof
    assume oj: "occurs_at answer_marker ?s j"
    from no_marker_inside [OF o oj that] have j: "length p + 5 + length g \<le> j" unfolding n .
    have h: "?s ! j = CHR ''#''" "j < length ?s" using occurs_at_nth [OF oj, of 0] by (simp_all add: answer_marker_def)
    let ?k = "j - (length p + 5 + length g)"
    have "j = length (p @ answer_marker @ g) + ?k" using j by simp
    then have "?s ! j = rest ! ?k" by (metis nth_append_length_plus append.assoc)
    moreover have "?k < length rest" using h(2) j by simp
    ultimately show False using h(1) rest(2) nth_mem by metis
  qed
  then have "last_number ?s 0 (Some g)"
    using o n g(1) by (auto simp: last_number_def intro!: exI [of _ "length p"])
  then show ?thesis using last_number_unique extract_strict_last p by metis
qed

text \<open>
  Claim C23. A solution that ends with a marked number inside the kept characters gets the correct
  score against a gold answer given the same way exactly when the two numbers agree up to commas and
  dollar signs, and the format score otherwise.
\<close>

theorem marked_answer_scored:
  assumes "ro_method options = Strict" "answers (ro_solution_clip_chars options) solution g"
    "answers default_clip_chars gold g'"
  shows "compute_gsm8k_reward solution gold options =
    (if strip_format_chars g = strip_format_chars g' then ro_correct_score options else ro_format_score options)"
  using assms answers_strict
  by (simp add: compute_gsm8k_reward_def normalize_gsm8k_ground_truth_def extract_gsm8k_answer_def)

theorem marked_answer_scored_witness:
  "compute_gsm8k_reward ''so #### 1,000.'' ''6*7 #### 1000.''
     \<lparr> ro_method = Strict, ro_correct_score = 1, ro_format_score = 0, ro_no_answer_score = - 1, ro_solution_clip_chars = 300 \<rparr> = (1 :: int)"
proof -
  let ?o = "\<lparr> ro_method = Strict, ro_correct_score = 1, ro_format_score = 0, ro_no_answer_score = - 1,
    ro_solution_clip_chars = 300 \<rparr> :: int reward_options"
  have 1: "answers 300 ''so #### 1,000.'' ''1,000.''"
    unfolding answers_def
    by (rule exI [of _ "''so ''"], rule exI [of _ "[]"]) (simp add: answer_marker_def is_number_char_def is_digit_def char_code_def)
  have 2: "answers default_clip_chars ''6*7 #### 1000.'' ''1000.''"
    unfolding answers_def
    by (rule exI [of _ "''6*7 ''"], rule exI [of _ "[]"])
      (simp add: answer_marker_def is_number_char_def is_digit_def char_code_def default_clip_chars_def)
  show ?thesis using marked_answer_scored [of ?o, OF _ _ 2] 1 by (simp add: strip_format_chars_def)
qed

section \<open>The numeric tokens and the regular expression\<close>

definition is_body_char :: "char \<Rightarrow> bool" where
  "is_body_char c \<longleftrightarrow> is_digit c \<or> c = CHR ''.'' \<or> c = CHR '',''"

function regex_tokens :: "string \<Rightarrow> string list" where
  "regex_tokens [] = []"
| "regex_tokens (c # cs) =
     (if is_body_char c \<or> (c = CHR ''-'' \<and> cs \<noteq> [] \<and> is_body_char (hd cs))
      then (c # takeWhile is_body_char cs) # regex_tokens (dropWhile is_body_char cs)
      else regex_tokens cs)"
  by pat_completeness auto
termination
  by (relation "measure length") (auto intro: le_imp_less_Suc length_dropWhile_le)

text \<open>Every minus sign starts a number: no numeric character before it, one after it.\<close>

fun minus_starts_number :: "bool \<Rightarrow> string \<Rightarrow> bool" where
  "minus_starts_number after_number [] \<longleftrightarrow> True"
| "minus_starts_number after_number (c # cs) \<longleftrightarrow>
     (c = CHR ''-'' \<longrightarrow> \<not> after_number \<and> cs \<noteq> [] \<and> is_body_char (hd cs)) \<and> minus_starts_number (is_number_char c) cs"

lemma number_char_body: "is_number_char c \<longleftrightarrow> is_body_char c \<or> c = CHR ''-''"
  by (auto simp: is_number_char_def is_body_char_def)

lemma minus_starts_number_run:
  "minus_starts_number True cs \<Longrightarrow> takeWhile is_number_char cs = takeWhile is_body_char cs \<and>
     dropWhile is_number_char cs = dropWhile is_body_char cs \<and> minus_starts_number True (dropWhile is_number_char cs)"
  by (induction cs) (auto simp: number_char_body)

lemma minus_starts_number_weaken: "minus_starts_number True cs \<Longrightarrow> minus_starts_number False cs"
  by (cases cs) auto

lemma tokens_regex: "minus_starts_number False txt \<Longrightarrow> find_number_tokens txt = regex_tokens txt"
proof (induction "txt" rule: find_number_tokens.induct)
  case (2 c cs)
  show ?case
  proof (cases "is_number_char c")
    case True
    then have r: "minus_starts_number True cs" using "2.prems" by simp
    note run = minus_starts_number_run [OF r]
    have "minus_starts_number False (dropWhile is_number_char cs)" using run minus_starts_number_weaken by blast
    with "2.IH"(1) [OF True] have "find_number_tokens (dropWhile is_number_char cs) = regex_tokens (dropWhile is_number_char cs)" .
    moreover
    have "is_body_char c \<or> (c = CHR ''-'' \<and> cs \<noteq> [] \<and> is_body_char (hd cs))"
      using True "2.prems" by (auto simp: number_char_body)
    ultimately show ?thesis
      using True run by simp
  next
    case False
    then have "\<not> (is_body_char c \<or> c = CHR ''-'')" by (simp add: number_char_body)
    then show ?thesis using False "2.IH"(2) "2.prems" by simp
  qed
qed simp

text \<open>
  Claim C24. Where every minus sign starts a number, the numeric tokens of the flexible extractor
  are the matches of the regular expression \<^verbatim>\<open>-?[0-9.,]+\<close> its comments refer to.
\<close>

theorem tokens_are_regex_matches:
  assumes "minus_starts_number False txt"
  shows "find_number_tokens txt = regex_tokens txt"
  using tokens_regex [OF assms] .

theorem tokens_are_regex_matches_witness:
  "find_number_tokens ''from -3.5 to 1,000'' = [''-3.5'', ''1,000'']"
proof -
  have "minus_starts_number False ''from -3.5 to 1,000''"
    by (simp add: is_body_char_def is_number_char_def is_digit_def char_code_def)
  from tokens_are_regex_matches [OF this] show ?thesis
    by (simp add: is_body_char_def is_digit_def char_code_def)
qed


end
