(* ===== verification/Rollout_Batch.thy ===== *)
theory Rollout_Batch
  imports Transport Gsm8k_Reward Tokenizer
begin

text \<open>
  \<^verbatim>\<open>src/rollout/rollout_batch.cc\<close>: the padded batch the trainer reads, built from a
  rollout response, the prompts and gold answers, a tokenizer and the reward rule. A tensor is its
  list of rows. The tokenizer is the record of the methods the code calls; \<open>to_f32\<close> is the
  cast of a \<^verbatim>\<open>double\<close> to \<^verbatim>\<open>float\<close>. The loop's cache of encoded prompts is kept;
  \<open>batch_of\<close> is the same batch without it.
\<close>

section \<open>Definitions\<close>

record tokenizer_ops =
  tk_encode :: "string \<Rightarrow> encode_options \<Rightarrow> int list"
  tk_pad_id :: int

record 'f rollout_batch =
  rb_prompt_ids :: "int list list"
  rb_response_ids :: "int list list"
  rb_response_mask :: "'f list list"
  rb_group_ids :: "int list"
  rb_scalar_rewards :: "'f list"
  rb_token_rewards :: "'f list list"
  rb_response_texts :: "string list"

record batch_options =
  bo_max_prompt_tokens :: int
  bo_max_response_tokens :: int
  bo_add_bos :: bool
  bo_add_eos :: bool

definition left_pad_into_row :: "int list \<Rightarrow> nat \<Rightarrow> int \<Rightarrow> int list" where
  "left_pad_into_row ids row_len pad_id =
     (let tk = min (length ids) row_len
      in replicate (row_len - tk) pad_id @ map (\<lambda>c. ids ! (length ids - tk + c)) [0..<tk])"

definition right_pad_into_row :: "int list \<Rightarrow> nat \<Rightarrow> int \<Rightarrow> int list" where
  "right_pad_into_row ids row_len pad_id =
     (let tk = min (length ids) row_len
      in map (\<lambda>c. ids ! c) [0..<tk] @ replicate (row_len - tk) pad_id)"

definition prompt_encode :: "batch_options \<Rightarrow> encode_options" where
  "prompt_encode options =
     \<lparr> add_bos = bo_add_bos options, add_eos = False, max_tokens = to_i32 (bo_max_prompt_tokens options) \<rparr>"

definition response_encode :: "batch_options \<Rightarrow> encode_options" where
  "response_encode options =
     \<lparr> add_bos = False, add_eos = bo_add_eos options, max_tokens = to_i32 (bo_max_response_tokens options) \<rparr>"

text \<open>The ids of a response, and the rows that depend on their number.\<close>

definition response_row_ids :: "tokenizer_ops \<Rightarrow> batch_options \<Rightarrow> rollout_sequence \<Rightarrow> int list" where
  "response_row_ids tok options sq =
     (let ids = map sint (seq_token_ids sq)
      in if ids = [] then tk_encode tok (seq_text sq) (response_encode options) else ids)"

definition mask_row :: "nat \<Rightarrow> nat \<Rightarrow> ('f :: {zero, one}) list" where
  "mask_row real_len n = map (\<lambda>c. if c < real_len then 1 else 0) [0..<n]"

definition token_reward_row :: "'f \<Rightarrow> nat \<Rightarrow> nat \<Rightarrow> ('f :: zero) list" where
  "token_reward_row reward real_len n =
     (if real_len > 0 then (replicate n 0)[real_len - 1 := reward] else replicate n 0)"

definition batch_step ::
  "('d \<Rightarrow> 'f :: {zero, one}) \<Rightarrow> tokenizer_ops \<Rightarrow> string list \<Rightarrow> string list \<Rightarrow> 'd reward_options \<Rightarrow> batch_options \<Rightarrow>
     rollout_sequence \<Rightarrow> int list option list \<times> 'f rollout_batch \<Rightarrow> (int list option list \<times> 'f rollout_batch) result" where
  "batch_step to_f32 tok prompts ground_truths reward_options options sq = (\<lambda>(cache, out).
     let pidx = unat (seq_prompt_index sq);
         P = nat (bo_max_prompt_tokens options);
         R = nat (bo_max_response_tokens options)
     in and_then (throw_if (pidx \<ge> length prompts) (OutOfRange ''rollout sequence prompt_index out of range'')) (\<lambda>_.
     let cache = (if cache ! pidx = None then cache[pidx := Some (tk_encode tok (prompts ! pidx) (prompt_encode options))]
           else cache);
         ids = response_row_ids tok options sq;
         real_len = min (length ids) R;
         reward = to_f32 (compute_gsm8k_reward (seq_text sq) (ground_truths ! pidx) reward_options)
     in Inr (cache, \<lparr>
       rb_prompt_ids = rb_prompt_ids out @ [left_pad_into_row (the (cache ! pidx)) P (tk_pad_id tok)],
       rb_response_ids = rb_response_ids out @ [right_pad_into_row ids R (tk_pad_id tok)],
       rb_response_mask = rb_response_mask out @ [mask_row real_len R],
       rb_group_ids = rb_group_ids out @ [int pidx],
       rb_scalar_rewards = rb_scalar_rewards out @ [reward],
       rb_token_rewards = rb_token_rewards out @ [token_reward_row reward real_len R],
       rb_response_texts = rb_response_texts out @ [seq_text sq] \<rparr>)))"

definition empty_batch :: "'f rollout_batch" where
  "empty_batch = \<lparr> rb_prompt_ids = [], rb_response_ids = [], rb_response_mask = [], rb_group_ids = [],
     rb_scalar_rewards = [], rb_token_rewards = [], rb_response_texts = [] \<rparr>"

definition build_gsm8k_rollout_batch ::
  "('d \<Rightarrow> 'f :: {zero, one}) \<Rightarrow> tokenizer_ops \<Rightarrow> rollout_response \<Rightarrow> string list \<Rightarrow> string list \<Rightarrow> 'd reward_options \<Rightarrow>
     batch_options \<Rightarrow> 'f rollout_batch result" where
  "build_gsm8k_rollout_batch to_f32 tok response prompts ground_truths reward_options options =
     and_then (throw_if (length prompts \<noteq> length ground_truths)
       (InvalidArgument ''prompts and ground_truths size mismatch'')) (\<lambda>_.
     and_then (throw_if (bo_max_prompt_tokens options \<le> 0 \<or> bo_max_response_tokens options \<le> 0)
       (InvalidArgument ''max_*_tokens must be positive'')) (\<lambda>_.
     and_then (throw_if (length (resp_sequences response) = 0)
       (InvalidArgument ''rollout response has no sequences'')) (\<lambda>_.
     and_then (fold_result (batch_step to_f32 tok prompts ground_truths reward_options options)
         (resp_sequences response) (replicate (length prompts) None, empty_batch)) (\<lambda>(cache, out).
     Inr out))))"

section \<open>The batch without the cache\<close>

definition batch_of ::
  "('d \<Rightarrow> 'f :: {zero, one}) \<Rightarrow> tokenizer_ops \<Rightarrow> rollout_sequence list \<Rightarrow> string list \<Rightarrow> string list \<Rightarrow> 'd reward_options \<Rightarrow>
     batch_options \<Rightarrow> 'f rollout_batch" where
  "batch_of to_f32 tok sqs prompts ground_truths reward_options options =
     (let P = nat (bo_max_prompt_tokens options);
          R = nat (bo_max_response_tokens options);
          pidx = (\<lambda>sq. unat (seq_prompt_index sq));
          len = (\<lambda>sq. min (length (response_row_ids tok options sq)) R);
          reward = (\<lambda>sq. to_f32 (compute_gsm8k_reward (seq_text sq) (ground_truths ! pidx sq) reward_options))
      in \<lparr> rb_prompt_ids = map (\<lambda>sq. left_pad_into_row (tk_encode tok (prompts ! pidx sq) (prompt_encode options)) P (tk_pad_id tok)) sqs,
           rb_response_ids = map (\<lambda>sq. right_pad_into_row (response_row_ids tok options sq) R (tk_pad_id tok)) sqs,
           rb_response_mask = map (\<lambda>sq. mask_row (len sq) R) sqs,
           rb_group_ids = map (\<lambda>sq. int (pidx sq)) sqs,
           rb_scalar_rewards = map reward sqs,
           rb_token_rewards = map (\<lambda>sq. token_reward_row (reward sq) (len sq) R) sqs,
           rb_response_texts = map seq_text sqs \<rparr>)"

definition cache_ok :: "tokenizer_ops \<Rightarrow> string list \<Rightarrow> batch_options \<Rightarrow> int list option list \<Rightarrow> bool" where
  "cache_ok tok prompts options cache \<longleftrightarrow> length cache = length prompts \<and>
     (\<forall>p < length prompts. \<forall>ids. cache ! p = Some ids \<longrightarrow> ids = tk_encode tok (prompts ! p) (prompt_encode options))"

lemma batch_of_Nil: "batch_of to_f32 tok [] prompts gold ro options = empty_batch"
  by (simp add: batch_of_def empty_batch_def Let_def)

lemma batch_step_ok:
  assumes "cache_ok tok prompts options cache" "unat (seq_prompt_index sq) < length prompts"
  shows "\<exists>cache'. batch_step to_f32 tok prompts gold ro options sq (cache, batch_of to_f32 tok sqs prompts gold ro options) =
    Inr (cache', batch_of to_f32 tok (sqs @ [sq]) prompts gold ro options) \<and> cache_ok tok prompts options cache'"
proof -
  let ?p = "unat (seq_prompt_index sq)"
  let ?ids = "tk_encode tok (prompts ! ?p) (prompt_encode options)"
  define cache' where "cache' = (if cache ! ?p = None then cache[?p := Some ?ids] else cache)"
  have "cache_ok tok prompts options cache'"
    using assms by (auto simp: cache_ok_def cache'_def nth_list_update)
  moreover have "the (cache' ! ?p) = ?ids"
    using assms by (auto simp: cache'_def cache_ok_def)
  ultimately show ?thesis
    using assms(2) unfolding batch_step_def prod.case Let_def cache'_def [symmetric]
    by (simp add: throw_if_def batch_of_def Let_def)
qed

lemma batch_loop:
  "cache_ok tok prompts options cache \<Longrightarrow>
    (\<exists>cache'. fold_result (batch_step to_f32 tok prompts gold ro options) sqs (cache, batch_of to_f32 tok done prompts gold ro options) =
      (if \<exists>sq \<in> set sqs. unat (seq_prompt_index sq) \<ge> length prompts
       then Inl (OutOfRange ''rollout sequence prompt_index out of range'')
       else Inr (cache', batch_of to_f32 tok (done @ sqs) prompts gold ro options)))"
proof (induction sqs arbitrary: cache "done")
  case (Cons sq sqs)
  show ?case
  proof (cases "unat (seq_prompt_index sq) < length prompts")
    case True
    from batch_step_ok [OF Cons.prems True, of to_f32 gold ro "done"] obtain cache1 where
      s: "batch_step to_f32 tok prompts gold ro options sq (cache, batch_of to_f32 tok done prompts gold ro options) =
        Inr (cache1, batch_of to_f32 tok (done @ [sq]) prompts gold ro options)" "cache_ok tok prompts options cache1" by blast
    from Cons.IH [OF s(2), of "done @ [sq]"] obtain cache2 where
      "fold_result (batch_step to_f32 tok prompts gold ro options) sqs
         (cache1, batch_of to_f32 tok (done @ [sq]) prompts gold ro options) =
       (if \<exists>sq \<in> set sqs. unat (seq_prompt_index sq) \<ge> length prompts
        then Inl (OutOfRange ''rollout sequence prompt_index out of range'')
        else Inr (cache2, batch_of to_f32 tok ((done @ [sq]) @ sqs) prompts gold ro options))" by blast
    moreover have "\<not> length prompts \<le> unat (seq_prompt_index sq)" using True by simp
    ultimately show ?thesis by (intro exI [of _ cache2]) (auto simp: s(1))
  next
    case False
    then show ?thesis by (simp add: batch_step_def Let_def throw_if_def not_less)
  qed
qed simp


lemma build_batch:
  "build_gsm8k_rollout_batch to_f32 tok response prompts gold ro options =
    (if length prompts \<noteq> length gold then Inl (InvalidArgument ''prompts and ground_truths size mismatch'')
     else if bo_max_prompt_tokens options \<le> 0 \<or> bo_max_response_tokens options \<le> 0
     then Inl (InvalidArgument ''max_*_tokens must be positive'')
     else if resp_sequences response = [] then Inl (InvalidArgument ''rollout response has no sequences'')
     else if list_ex (\<lambda>sq. unat (seq_prompt_index sq) \<ge> length prompts) (resp_sequences response)
     then Inl (OutOfRange ''rollout sequence prompt_index out of range'')
     else Inr (batch_of to_f32 tok (resp_sequences response) prompts gold ro options))"
proof -
  have "cache_ok tok prompts options (replicate (length prompts) None)" by (simp add: cache_ok_def)
  from batch_loop [OF this, of to_f32 gold ro "resp_sequences response" "[]"]
  show ?thesis
    unfolding batch_of_Nil
    by (auto simp: build_gsm8k_rollout_batch_def throw_if_def list_ex_iff)
qed

text \<open>
  Claim C26. The batch builder computes, with its cache of encoded prompts and its early exits,
  the batch that treats every sequence on its own, or throws: for lists of different lengths, a
  non-positive width, an empty response, or a prompt index out of range, checked in this order.
\<close>

theorem build_batch_correct:
  "build_gsm8k_rollout_batch to_f32 tok response prompts gold ro options =
    (if length prompts \<noteq> length gold then Inl (InvalidArgument ''prompts and ground_truths size mismatch'')
     else if bo_max_prompt_tokens options \<le> 0 \<or> bo_max_response_tokens options \<le> 0
     then Inl (InvalidArgument ''max_*_tokens must be positive'')
     else if resp_sequences response = [] then Inl (InvalidArgument ''rollout response has no sequences'')
     else if list_ex (\<lambda>sq. unat (seq_prompt_index sq) \<ge> length prompts) (resp_sequences response)
     then Inl (OutOfRange ''rollout sequence prompt_index out of range'')
     else Inr (batch_of to_f32 tok (resp_sequences response) prompts gold ro options))"
  by (rule build_batch)

section \<open>The rows, and the batch of a loopback response\<close>

lemma left_pad_row:
  "left_pad_into_row ids n pad = replicate (n - length ids) pad @ drop (length ids - n) ids"
proof -
  have "map (\<lambda>c. ids ! (length ids - min (length ids) n + c)) [0..<min (length ids) n] = drop (length ids - n) ids"
    by (rule nth_equalityI) (auto simp: min_def)
  then show ?thesis by (simp add: left_pad_into_row_def Let_def min_def split: if_splits)
qed

lemma right_pad_row: "right_pad_into_row ids n pad = take n ids @ replicate (n - length ids) pad"
proof -
  have "map (\<lambda>c. ids ! c) [0..<min (length ids) n] = take n ids" by (rule nth_equalityI) auto
  then show ?thesis by (simp add: right_pad_into_row_def Let_def min_def)
qed

lemma mask_row_form: "l \<le> n \<Longrightarrow> mask_row l n = replicate l 1 @ replicate (n - l) 0"
  by (rule nth_equalityI) (auto simp: mask_row_def nth_append)

lemma batch_of_row:
  fixes tok :: tokenizer_ops and to_f32 :: "'d \<Rightarrow> 'f :: {zero, one}" and ro :: "'d reward_options"
    and prompts gold :: "string list" and options :: batch_options
  assumes "k < length sqs" "0 < bo_max_response_tokens options"
  defines "sq \<equiv> sqs ! k" and "P \<equiv> nat (bo_max_prompt_tokens options)" and "R \<equiv> nat (bo_max_response_tokens options)"
  defines "ids \<equiv> response_row_ids tok options sq" and "p \<equiv> unat (seq_prompt_index sq)"
  defines "pids \<equiv> tk_encode tok (prompts ! p) (prompt_encode options)"
    and "out \<equiv> batch_of to_f32 tok sqs prompts gold ro options"
    and "reward \<equiv> to_f32 (compute_gsm8k_reward (seq_text sq) (gold ! p) ro)"
  shows "rb_group_ids out ! k = int p"
    and "rb_prompt_ids out ! k = replicate (P - length pids) (tk_pad_id tok) @ drop (length pids - P) pids"
    and "rb_response_ids out ! k = take R ids @ replicate (R - length ids) (tk_pad_id tok)"
    and "rb_response_mask out ! k = replicate (min (length ids) R) 1 @ replicate (R - length ids) 0"
    and "rb_scalar_rewards out ! k = reward"
    and "rb_token_rewards out ! k =
      (if ids = [] then replicate R 0 else (replicate R 0)[min (length ids) R - 1 := reward])"
proof -
  note defs = out_def batch_of_def Let_def sq_def P_def R_def ids_def p_def pids_def reward_def
  have "0 < R" using assms(2) by (simp add: R_def)
  then have "0 < min (length ids) R \<longleftrightarrow> ids \<noteq> []" by (cases ids) auto
  then show "rb_token_rewards out ! k =
      (if ids = [] then replicate R 0 else (replicate R 0)[min (length ids) R - 1 := reward])"
    using assms(1) by (simp add: defs token_reward_row_def)
  have "R - min (length ids) R = R - length ids" by simp
  then show "rb_response_mask out ! k = replicate (min (length ids) R) 1 @ replicate (R - length ids) 0"
    using assms(1) by (simp add: defs mask_row_form)
qed (use assms(1) in \<open>simp_all add: assms(3-) batch_of_def Let_def left_pad_row right_pad_row\<close>)

lemma length_group_ids [simp]: "length (rb_group_ids (batch_of to_f32 tok sqs prompts gold ro options)) = length sqs"
  by (simp add: batch_of_def Let_def)

text \<open>
  Claim C27. From the loopback transport to the trainer's batch: every sample of every prompt has a
  row, in prompt order, labelled with its prompt; prompts are padded on the left and cut on the left,
  responses padded and cut on the right; the mask covers exactly the real response tokens; and the
  reward of the sampled text against the prompt's gold answer sits on the last of them.
\<close>

theorem loopback_batch_rows:
  fixes tok :: tokenizer_ops and lo :: loopback_options and k :: nat
  assumes "length gold = length (req_prompts req)" "length (req_prompts req) \<le> 2 ^ 32"
    and "0 < bo_max_prompt_tokens options" "0 < bo_max_response_tokens options"
    and k: "k < length (req_prompts req) * unat (req_n req)"
  defines "n \<equiv> unat (req_n req)" and "P \<equiv> nat (bo_max_prompt_tokens options)" and "R \<equiv> nat (bo_max_response_tokens options)"
    and "ids \<equiv> response_row_ids tok options (resp_sequences (loopback_generate lo req) ! k)"
    and "pids \<equiv> tk_encode tok (req_prompts req ! (k div unat (req_n req))) (prompt_encode options)"
  shows "\<exists>out. build_gsm8k_rollout_batch to_f32 tok (loopback_generate lo req) (req_prompts req) gold ro options = Inr out \<and>
    length (rb_group_ids out) = length (req_prompts req) * n \<and> rb_group_ids out ! k = int (k div n) \<and>
    rb_prompt_ids out ! k = replicate (P - length pids) (tk_pad_id tok) @ drop (length pids - P) pids \<and>
    rb_response_ids out ! k = take R ids @ replicate (R - length ids) (tk_pad_id tok) \<and>
    rb_response_mask out ! k = replicate (min (length ids) R) 1 @ replicate (R - length ids) 0 \<and>
    rb_scalar_rewards out ! k =
      to_f32 (compute_gsm8k_reward (req_prompts req ! (k div n) @ completion_suffix lo) (gold ! (k div n)) ro) \<and>
    rb_token_rewards out ! k =
      (if ids = [] then replicate R 0 else (replicate R 0)[min (length ids) R - 1 := rb_scalar_rewards out ! k])"
proof -
  let ?L = "length (req_prompts req)"
  let ?sqs = "resp_sequences (loopback_generate lo req)"
  have n: "0 < n" using k by (cases "n = 0") (auto simp: n_def)
  have len: "length ?sqs = ?L * n" by (simp add: loopback_sequences n_def)
  have sq: "?sqs ! j = loopback_sequence lo req (j div n) (j mod n)" if "j < ?L * n" for j
    using that by (simp add: loopback_sequences n_def)
  have idx: "unat (seq_prompt_index (?sqs ! j)) = j div n" "j div n < ?L" if "j < ?L * n" for j
  proof -
    show lt: "j div n < ?L" using that by (simp add: less_mult_imp_div_less)
    then have "j div n < 2 ^ 32" using assms(2) by simp
    then show "unat (seq_prompt_index (?sqs ! j)) = j div n"
      using that by (simp add: sq loopback_sequence_def Let_def unat_of_nat)
  qed
  have ok: "\<not> list_ex (\<lambda>sq. unat (seq_prompt_index sq) \<ge> ?L) ?sqs"
    unfolding list_ex_length using idx len by (auto simp: not_le)
  have ne: "?sqs \<noteq> []" using k len by (auto simp: n_def)
  have tx: "seq_text (?sqs ! k) = req_prompts req ! (k div n) @ completion_suffix lo"
    using k by (simp add: sq n_def [symmetric] loopback_sequence_def Let_def)
  have kl: "k < length ?sqs" using k len by (simp add: n_def)
  have "build_gsm8k_rollout_batch to_f32 tok (loopback_generate lo req) (req_prompts req) gold ro options =
      Inr (batch_of to_f32 tok ?sqs (req_prompts req) gold ro options)"
    using build_batch [of to_f32 tok "loopback_generate lo req" "req_prompts req" gold ro options] assms(1,3,4) ok ne by simp
  then show ?thesis
    using batch_of_row [OF kl assms(4), where tok = tok and prompts = "req_prompts req" and ?to_f32.0 = to_f32 and gold = gold and ro = ro]
    unfolding tx idx(1) [OF k [folded n_def]] P_def [symmetric] R_def [symmetric] ids_def [symmetric]
      pids_def [unfolded n_def [symmetric], symmetric]
    by (intro exI [of _ "batch_of to_f32 tok ?sqs (req_prompts req) gold ro options"]) (simp add: len)
qed

definition witness_tokenizer :: tokenizer_ops where
  "witness_tokenizer = \<lparr> tk_encode = byte_encode, tk_pad_id = k_pad_id \<rparr>"

definition witness_request :: rollout_request where
  "witness_request = \<lparr> req_prompts = [''1+1'', ''2+2''], req_prompt_token_ids = [], req_n = 2, req_max_tokens = 8,
     req_temperature = 0, req_top_p = 0, req_top_k = 0, req_stop = [], req_return_token_ids = False,
     req_return_logprobs = False, req_seed = 0, req_model = [], req_extra_params = [], req_request_id = 7 \<rparr>"

theorem loopback_batch_rows_witness:
  "\<exists>out. build_gsm8k_rollout_batch (\<lambda>x. x) witness_tokenizer
      (loopback_generate \<lparr> completion_suffix = '' #### 4'', synthesize_token_ids = False \<rparr> witness_request)
      (req_prompts witness_request) [''2'', ''4'']
      \<lparr> ro_method = Strict, ro_correct_score = 1, ro_format_score = 0, ro_no_answer_score = 0, ro_solution_clip_chars = 300 \<rparr>
      \<lparr> bo_max_prompt_tokens = 4, bo_max_response_tokens = 16, bo_add_bos = True, bo_add_eos = True \<rparr> =
      Inr (out :: int rollout_batch) \<and>
    length (rb_group_ids out) = 4 \<and> rb_group_ids out ! 2 = 1"
  using loopback_batch_rows [of "[''2'', ''4'']" witness_request
      "\<lparr> bo_max_prompt_tokens = 4, bo_max_response_tokens = 16, bo_add_bos = True, bo_add_eos = True \<rparr>" 2
      "\<lambda>x :: int. x" witness_tokenizer "\<lparr> completion_suffix = '' #### 4'', synthesize_token_ids = False \<rparr>"
      "\<lparr> ro_method = Strict, ro_correct_score = 1, ro_format_score = 0, ro_no_answer_score = 0, ro_solution_clip_chars = 300 \<rparr>"]
  by (auto simp: witness_request_def)

text \<open>
  Claim C28. A prompt longer than the row is cut by the tokenizer before \<open>left_pad_into_row\<close> can
  keep its tail: without BOS the row holds the first \<open>max_prompt_tokens\<close> bytes of the prompt, so its
  last column is not the prompt's last token, as the comment in the code has it.
\<close>

theorem long_prompt_keeps_head:
  assumes "Suc (length prompt) < 2 ^ 31" "0 < bo_max_prompt_tokens options"
    and "bo_max_prompt_tokens options \<le> int (length prompt)" "\<not> bo_add_bos options"
  shows "left_pad_into_row (byte_encode prompt (prompt_encode options)) (nat (bo_max_prompt_tokens options)) k_pad_id =
    map (\<lambda>c. k_byte_offset + int (char_code c)) (take (nat (bo_max_prompt_tokens options)) prompt)"
proof -
  have "to_i32 (bo_max_prompt_tokens options) = bo_max_prompt_tokens options"
    using assms to_i32_size [of "nat (bo_max_prompt_tokens options)"] by simp
  then show ?thesis
    using assms unfolding byte_encode_form [OF assms(1)]
    by (simp add: left_pad_row prompt_encode_def kept_bytes_def)
qed

theorem long_prompt_keeps_head_witness:
  "left_pad_into_row (byte_encode ''what is 1+1?'' (prompt_encode
      \<lparr> bo_max_prompt_tokens = 4, bo_max_response_tokens = 4, bo_add_bos = False, bo_add_eos = True \<rparr>)) 4 k_pad_id =
    map (\<lambda>c. k_byte_offset + int (char_code c)) ''what''"
  using long_prompt_keeps_head [of "''what is 1+1?''"
    "\<lparr> bo_max_prompt_tokens = 4, bo_max_response_tokens = 4, bo_add_bos = False, bo_add_eos = True \<rparr>"]
  by simp

end
