(* ===== verification/Real_Matrix.thy ===== *)
theory Real_Matrix
  imports Prelude Complex_Main
begin

text \<open>
  Two-dimensional tensors of exact numbers, as the algorithms and the tensor-parallel layers use
  them: the number of columns and the rows, the element-wise operations of torch, and the rewriting
  of each of them on matrices given by their entries (collection \<open>mx_entries\<close>).
\<close>

section \<open>Matrices\<close>

record matrix =
  mx_cols :: nat
  mx_rows :: "real list list"

definition mx_size :: "matrix \<Rightarrow> nat \<times> nat" where
  "mx_size m = (length (mx_rows m), mx_cols m)"

definition mx_ok :: "matrix \<Rightarrow> bool" where
  "mx_ok m \<longleftrightarrow> (\<forall>row \<in> set (mx_rows m). length row = mx_cols m)"

definition mx_map :: "(real \<Rightarrow> real) \<Rightarrow> matrix \<Rightarrow> matrix" where
  "mx_map f m = m\<lparr>mx_rows := map (map f) (mx_rows m)\<rparr>"

definition mx_map2 :: "(real \<Rightarrow> real \<Rightarrow> real) \<Rightarrow> matrix \<Rightarrow> matrix \<Rightarrow> matrix" where
  "mx_map2 f a b = a\<lparr>mx_rows := map2 (map2 f) (mx_rows a) (mx_rows b)\<rparr>"

definition mx_map3 :: "(real \<Rightarrow> real \<Rightarrow> real \<Rightarrow> real) \<Rightarrow> matrix \<Rightarrow> matrix \<Rightarrow> matrix \<Rightarrow> matrix" where
  "mx_map3 f a b c = a\<lparr>mx_rows := map2 (\<lambda>x (y, z). map2 (\<lambda>u (v, w). f u v w) x (zip y z)) (mx_rows a) (zip (mx_rows b) (mx_rows c))\<rparr>"

definition mx_sum :: "matrix \<Rightarrow> real" where
  "mx_sum m = sum_list (map sum_list (mx_rows m))"

definition row_sums :: "matrix \<Rightarrow> real list" where
  "row_sums m = map sum_list (mx_rows m)"

definition column :: "nat \<Rightarrow> matrix \<Rightarrow> real list" where
  "column c m = map (\<lambda>row. row ! c) (mx_rows m)"

section \<open>Matrices given by their entries\<close>

definition mx_of :: "nat \<Rightarrow> nat \<Rightarrow> (nat \<Rightarrow> nat \<Rightarrow> real) \<Rightarrow> matrix" where
  "mx_of n c f = \<lparr> mx_cols = c, mx_rows = map (\<lambda>i. map (f i) [0..<c]) [0..<n] \<rparr>"

definition entry :: "matrix \<Rightarrow> nat \<Rightarrow> nat \<Rightarrow> real" where
  "entry m i j = mx_rows m ! i ! j"

named_theorems mx_entries \<open>operations on matrices given by their entries\<close>

lemma mx_of_entry: "mx_ok m \<Longrightarrow> mx_size m = (n, c) \<Longrightarrow> m = mx_of n c (entry m)"
  by (cases m) (auto simp: mx_ok_def mx_size_def mx_of_def entry_def intro!: nth_equalityI)

lemma mx_of_sel [mx_entries]: "mx_rows (mx_of n c f) = map (\<lambda>i. map (f i) [0..<c]) [0..<n]" "mx_cols (mx_of n c f) = c"
  by (simp_all add: mx_of_def)

lemma entry_mx_of [mx_entries]: "i < n \<Longrightarrow> j < c \<Longrightarrow> entry (mx_of n c f) i j = f i j"
  by (simp add: entry_def mx_of_def)

lemma mx_map_of [mx_entries]: "mx_map g (mx_of n c f) = mx_of n c (\<lambda>i j. g (f i j))"
  by (simp add: mx_map_def mx_of_def)

lemma mx_map2_of [mx_entries]: "mx_map2 g (mx_of n c f) (mx_of n c h) = mx_of n c (\<lambda>i j. g (f i j) (h i j))"
  by (auto simp: mx_map2_def mx_of_def intro!: nth_equalityI)

lemma mx_map3_of [mx_entries]:
  "mx_map3 g (mx_of n c f) (mx_of n c h) (mx_of n c k) = mx_of n c (\<lambda>i j. g (f i j) (h i j) (k i j))"
  by (auto simp: mx_map3_def mx_of_def intro!: nth_equalityI)

lemma sum_list_upt: "sum_list (map f [0..<n]) = (\<Sum>i<n. f i)"
  by (simp add: sum_list_sum_nth atLeast0LessThan)

lemma mx_sum_of [mx_entries]: "mx_sum (mx_of n c f) = (\<Sum>i<n. \<Sum>j<c. f i j)"
  by (simp add: mx_sum_def mx_of_def o_def sum_list_upt)

lemma mx_size_of [mx_entries]: "mx_size (mx_of n c f) = (n, c)"
  by (simp add: mx_size_def mx_of_def)

lemma column_of [mx_entries]: "j < c \<Longrightarrow> column j (mx_of n c f) = map (\<lambda>i. f i j) [0..<n]"
  by (simp add: column_def mx_of_def o_def)

lemma mx_of_cong: "(\<And>i j. i < n \<Longrightarrow> j < c \<Longrightarrow> f i j = g i j) \<Longrightarrow> mx_of n c f = mx_of n c g"
  by (simp add: mx_of_def)

end
