(* ===== verification/Core_Algos.thy ===== *)
theory Core_Algos
  imports Real_Matrix
begin

text \<open>
  \<^verbatim>\<open>src/torch/core_algos_torch.cc\<close>: the losses and advantages of the trainers. Numbers are
  exact: a \<^verbatim>\<open>float\<close> is a real number, and rounding is not modelled. A two-dimensional tensor is its
  number of columns and its rows. Where the code divides by a quantity that can be zero in exact
  arithmetic, the result is \<open>None\<close>: IEEE gives a NaN or an infinity there. A failed
  \<^verbatim>\<open>TORCH_CHECK\<close> is a \<open>RuntimeError\<close>; the checks that a tensor has two dimensions hold by
  the type. An enumeration value of the C interface is its integer.
\<close>

section \<open>Masked statistics and losses\<close>

definition clamp :: "real \<Rightarrow> real \<Rightarrow> real \<Rightarrow> real" where
  "clamp lo hi x = min (max x lo) hi"

definition k_eps :: real where
  "k_eps = 1 / 10 ^ 8"

definition masked_sum :: "matrix \<Rightarrow> matrix \<Rightarrow> real" where
  "masked_sum values msk = mx_sum (mx_map2 (*) values msk)"

definition masked_mean :: "matrix \<Rightarrow> matrix \<Rightarrow> real" where
  "masked_mean values msk = masked_sum values msk / (mx_sum msk + k_eps)"

definition masked_whiten :: "matrix \<Rightarrow> matrix \<Rightarrow> bool \<Rightarrow> matrix option" where
  "masked_whiten values msk shift_mean =
     (let mean = masked_mean values msk;
          centered = mx_map (\<lambda>x. x - mean) values;
          var0 = masked_mean (mx_map (\<lambda>x. x ^ 2) centered) msk;
          mask_sum = mx_sum msk
      in if mask_sum = 1 then None
         else let var = var0 * mask_sum / (mask_sum - 1);
                  whitened = mx_map (\<lambda>x. x * (1 / sqrt (var + k_eps))) centered
              in Some (if \<not> shift_mean then mx_map (\<lambda>x. x + mean) whitened else whitened))"

definition aggregate_loss :: "matrix \<Rightarrow> matrix \<Rightarrow> int \<Rightarrow> real result" where
  "aggregate_loss loss_mat loss_mask mode =
     (if mode = 0 then Inr (masked_sum loss_mat loss_mask / (mx_sum loss_mask + k_eps))
      else
        let seq_token_count = row_sums loss_mask;
            seq_mask = map (\<lambda>n. if n > 0 then 1 else 0) seq_token_count;
            seq_losses0 = row_sums (mx_map2 (*) loss_mat loss_mask);
            seq_losses = (if mode = 2 then map2 (\<lambda>l n. l / (n + k_eps)) seq_losses0 seq_token_count else seq_losses0)
        in if mode = 1 \<or> mode = 2
           then Inr (sum_list (map2 (*) seq_losses seq_mask) / (sum_list seq_mask + k_eps))
           else Inl (RuntimeError ''unsupported loss aggregation mode''))"

definition kl_penalty :: "matrix \<Rightarrow> matrix \<Rightarrow> int \<Rightarrow> matrix result" where
  "kl_penalty logprob ref_logprob penalty =
     (let diff = mx_map2 (-) logprob ref_logprob in
      if penalty = 0 then Inr diff
      else if penalty = 1 then Inr (mx_map abs diff)
      else if penalty = 2 then Inr (mx_map (\<lambda>x. 1 / 2 * x ^ 2) diff)
      else if penalty = 3 then
        let kl = mx_map2 (\<lambda>r l. clamp (- 20) 20 (r - l)) ref_logprob logprob
        in Inr (mx_map (\<lambda>k. clamp (- 10) 10 (exp k - k - 1)) kl)
      else Inl (RuntimeError ''unsupported KL penalty''))"

section \<open>Generalised advantage estimation\<close>

text \<open>
  The loop over the columns, from the last to the first: \<open>gae_columns c next last acc\<close> has the columns
  below \<open>c\<close> to go; \<open>acc\<close> are the advantage columns already computed.
\<close>

fun gae_columns ::
  "real \<Rightarrow> real \<Rightarrow> matrix \<Rightarrow> matrix \<Rightarrow> matrix \<Rightarrow> nat \<Rightarrow> real list \<Rightarrow> real list \<Rightarrow> real list list \<Rightarrow> real list list" where
  "gae_columns gamma lam rewards values msk 0 next_value last_gae acc = acc"
| "gae_columns gamma lam rewards values msk (Suc c) next_value last_gae acc =
     (let reward = column c rewards; value = column c values; m = column c msk;
          delta = map2 (-) (map2 (\<lambda>r n. r + gamma * n) reward next_value) value;
          candidate = map2 (\<lambda>d l. d + gamma * lam * l) delta last_gae;
          next_value' = map2 (+) (map2 (*) value m) (map2 (\<lambda>k n. (1 - k) * n) m next_value);
          last_gae' = map2 (+) (map2 (*) candidate m) (map2 (\<lambda>k l. (1 - k) * l) m last_gae)
      in gae_columns gamma lam rewards values msk c next_value' last_gae' (last_gae' # acc))"

definition from_columns :: "nat \<Rightarrow> real list list \<Rightarrow> matrix" where
  "from_columns rows cols = \<lparr> mx_cols = length cols, mx_rows = map (\<lambda>i. map (\<lambda>col. col ! i) cols) [0..<rows] \<rparr>"

text \<open>The result is the whitened advantages and the returns.\<close>

definition gae_advantage_return ::
  "matrix \<Rightarrow> matrix \<Rightarrow> matrix \<Rightarrow> real \<Rightarrow> real \<Rightarrow> (matrix option \<times> matrix) result" where
  "gae_advantage_return rewards values msk gamma lam =
     and_then (throw_if (mx_size values \<noteq> mx_size rewards) (RuntimeError ''values shape mismatch'')) (\<lambda>_.
     and_then (throw_if (mx_size msk \<noteq> mx_size rewards) (RuntimeError ''response_mask shape mismatch'')) (\<lambda>_.
     let rows = length (mx_rows rewards);
         zeros = replicate rows 0;
         advantages = from_columns rows (gae_columns gamma lam rewards values msk (mx_cols rewards) zeros zeros [])
     in Inr (masked_whiten advantages msk True, mx_map2 (+) advantages values)))"

section \<open>Group-relative advantages\<close>




text \<open>\<^verbatim>\<open>index_add_\<close>: one addition per element.\<close>

definition index_add :: "nat list \<Rightarrow> real list \<Rightarrow> real list \<Rightarrow> real list" where
  "index_add inv_index xs acc = fold (\<lambda>(j, x) acc. acc[j := acc ! j + x]) (zip inv_index xs) acc"



section \<open>The clipped policy loss\<close>

record ppo_loss =
  pg_loss :: real
  pg_clipfrac :: real
  ppo_kl :: real
  pg_clipfrac_lower :: real

definition ppo_clipped_loss ::
  "matrix \<Rightarrow> matrix \<Rightarrow> matrix \<Rightarrow> matrix \<Rightarrow> real \<Rightarrow> real \<Rightarrow> real \<Rightarrow> real \<Rightarrow> int \<Rightarrow> ppo_loss result" where
  "ppo_clipped_loss old_log_prob log_prob advantages msk clip_ratio clip_low clip_high clip_c agg_mode =
     and_then (throw_if (\<not> clip_c > 1) (RuntimeError ''clip_ratio_c must be > 1.0'')) (\<lambda>_.
     let low = (if clip_low < 0 then clip_ratio else clip_low);
         high = (if clip_high < 0 then clip_ratio else clip_high);
         negative_approx_kl = mx_map (clamp (- 20) 20) (mx_map2 (-) log_prob old_log_prob);
         ratio = mx_map exp negative_approx_kl;
         kl = masked_mean (mx_map uminus negative_approx_kl) msk;
         losses1 = mx_map2 (\<lambda>a r. - a * r) advantages ratio;
         losses2 = mx_map2 (\<lambda>a r. - a * clamp (1 - low) (1 + high) r) advantages ratio;
         clip_losses1 = mx_map2 max losses1 losses2;
         clipfrac = masked_mean (mx_map2 (\<lambda>l2 l1. if l2 > l1 then 1 else 0) losses2 losses1) msk;
         losses3 = mx_map (\<lambda>a. - a * clip_c) advantages;
         clip_losses2 = mx_map2 min losses3 clip_losses1;
         clipfrac_lower = masked_mean (mx_map2 (*)
           (mx_map2 (\<lambda>c1 l3. if c1 > l3 then 1 else 0) clip_losses1 losses3)
           (mx_map (\<lambda>a. if a < 0 then 1 else 0) advantages)) msk;
         losses = mx_map3 (\<lambda>a c2 c1. if a < 0 then c2 else c1) advantages clip_losses2 clip_losses1
     in and_then (aggregate_loss losses msk agg_mode) (\<lambda>l.
        Inr \<lparr> pg_loss = l, pg_clipfrac = clipfrac, ppo_kl = kl, pg_clipfrac_lower = clipfrac_lower \<rparr>))"

section \<open>The advantage recursion\<close>

fun gae_row :: "real \<Rightarrow> real \<Rightarrow> (nat \<Rightarrow> real) \<Rightarrow> (nat \<Rightarrow> real) \<Rightarrow> (nat \<Rightarrow> real) \<Rightarrow> nat \<Rightarrow> real \<Rightarrow> real \<Rightarrow> real list \<Rightarrow> real list" where
  "gae_row gamma lam r v m 0 next_value last_gae acc = acc"
| "gae_row gamma lam r v m (Suc c) next_value last_gae acc =
     (let last' = (r c + gamma * next_value - v c + gamma * lam * last_gae) * m c + (1 - m c) * last_gae
      in gae_row gamma lam r v m c (v c * m c + (1 - m c) * next_value) last' (last' # acc))"

lemma gae_columns_row:
  assumes "i < n" "c \<le> cols" "length next_value = n" "length last_gae = n"
  shows "map (\<lambda>col. col ! i) (gae_columns gamma lam (mx_of n cols r) (mx_of n cols v) (mx_of n cols m) c next_value last_gae acc) =
    gae_row gamma lam (r i) (v i) (m i) c (next_value ! i) (last_gae ! i) (map (\<lambda>col. col ! i) acc)"
  using assms(2-)
proof (induction c arbitrary: next_value last_gae acc)
  case (Suc c)
  then show ?case using assms(1) by (simp add: Let_def mx_entries del: gae_columns.simps(1))
qed simp

lemma length_gae_row: "length (gae_row gamma lam r v m c x y acc) = c + length acc"
  by (induction c arbitrary: x y acc) (simp_all add: Let_def)

lemma length_gae_columns: "length (gae_columns gamma lam r v m c x y acc) = c + length acc"
  by (induction c arbitrary: x y acc) (simp_all add: Let_def)

text \<open>The rewards and values of the kept positions from \<open>t\<close> on, and the sum over them.\<close>

definition kept_from :: "(nat \<Rightarrow> real) \<Rightarrow> nat \<Rightarrow> nat \<Rightarrow> nat list" where
  "kept_from m cols t = filter (\<lambda>j. m j = 1) [t..<cols]"

fun next_kept :: "(nat \<Rightarrow> real) \<Rightarrow> nat list \<Rightarrow> real" where
  "next_kept v [] = 0"
| "next_kept v (j # js) = v j"

fun gae_sum :: "real \<Rightarrow> real \<Rightarrow> (nat \<Rightarrow> real) \<Rightarrow> (nat \<Rightarrow> real) \<Rightarrow> nat list \<Rightarrow> real" where
  "gae_sum gamma lam r v [] = 0"
| "gae_sum gamma lam r v (j # js) = r j + gamma * next_kept v js - v j + gamma * lam * gae_sum gamma lam r v js"

lemma gae_sum_closed:
  "gae_sum gamma lam r v js = (\<Sum>l<length js. (gamma * lam) ^ l *
     (r (js ! l) + gamma * (if Suc l < length js then v (js ! Suc l) else 0) - v (js ! l)))"
proof (induction js)
  case (Cons j js)
  have "next_kept v js = (if 0 < length js then v (js ! 0) else 0)" by (cases js) simp_all
  then show ?case
    unfolding gae_sum.simps Cons.IH list.size add_0_right One_nat_def add_Suc_right sum.lessThan_Suc_shift
    by (simp add: sum_distrib_left mult.assoc cong: if_cong)
qed simp

lemma gae_row_kept:
  assumes "\<And>j. j < cols \<Longrightarrow> m j = 0 \<or> m j = 1"
  shows "c \<le> cols \<Longrightarrow> length acc = cols - c \<Longrightarrow> x = next_kept v (kept_from m cols c) \<Longrightarrow>
      y = gae_sum gamma lam r v (kept_from m cols c) \<Longrightarrow>
      (\<And>t. c \<le> t \<Longrightarrow> t < cols \<Longrightarrow> acc ! (t - c) = gae_sum gamma lam r v (kept_from m cols t)) \<Longrightarrow>
      t < cols \<Longrightarrow> gae_row gamma lam r v m c x y acc ! t = gae_sum gamma lam r v (kept_from m cols t)"
proof (induction c arbitrary: x y acc)
  case (Suc c)
  let ?last = "(r c + gamma * x - v c + gamma * lam * y) * m c + (1 - m c) * y"
  have k: "kept_from m cols c = (if m c = 1 then c # kept_from m cols (Suc c) else kept_from m cols (Suc c))"
    using Suc.prems(1) by (simp add: kept_from_def upt_conv_Cons)
  have l: "?last = gae_sum gamma lam r v (kept_from m cols c)" and n: "v c * m c + (1 - m c) * x = next_kept v (kept_from m cols c)"
    using assms [of c] Suc.prems(1,3,4) k by (auto simp: algebra_simps)
  have "(?last # acc) ! (t' - c) = gae_sum gamma lam r v (kept_from m cols t')" if "c \<le> t'" "t' < cols" for t'
    using that l Suc.prems(5) [of t'] by (cases "t' = c") (auto simp: nth_Cons' Suc_diff_le)
  then show ?case
    using Suc.IH [of "?last # acc", OF _ _ n l] Suc.prems(1,2,6) by (simp add: Let_def)
qed simp

lemma gae_raw:
  assumes i: "i < n" and t: "t < cols" and m: "\<And>j. j < cols \<Longrightarrow> m i j = 0 \<or> m i j = 1"
  shows "entry (from_columns n (gae_columns gamma lam (mx_of n cols r) (mx_of n cols v) (mx_of n cols m) cols
      (replicate n 0) (replicate n 0) [])) i t = gae_sum gamma lam (r i) (v i) (kept_from (m i) cols t)"
proof -
  let ?cols = "gae_columns gamma lam (mx_of n cols r) (mx_of n cols v) (mx_of n cols m) cols (replicate n 0) (replicate n 0) []"
  have "map (\<lambda>col. col ! i) ?cols = gae_row gamma lam (r i) (v i) (m i) cols 0 0 []"
    using gae_columns_row [OF i le_refl, where next_value = "replicate n 0" and last_gae = "replicate n 0" and acc = "[]" and r = r and v = v and m = m] i by simp
  moreover have "gae_row gamma lam (r i) (v i) (m i) cols 0 0 [] ! t = gae_sum gamma lam (r i) (v i) (kept_from (m i) cols t)"
    by (rule gae_row_kept [OF m]) (use t in \<open>simp_all add: kept_from_def\<close>)
  ultimately show ?thesis using i by (simp add: entry_def from_columns_def)
qed

lemma from_columns_of:
  "from_columns n (gae_columns gamma lam r v m c x y []) = mx_of n c (entry (from_columns n (gae_columns gamma lam r v m c x y [])))"
  by (auto simp: from_columns_def mx_of_def entry_def length_gae_columns intro!: nth_equalityI)

text \<open>
  Claim C36. For a mask of zeros and ones, the advantage computed for column \<open>t\<close> of a row is the
  discounted sum of the temporal differences over the row's kept columns from \<open>t\<close> on, where the
  value that follows a kept column is that of the next kept column (none after the last); the returns
  are the advantages plus the values.
\<close>

theorem gae_closed_form:
  assumes "mx_ok rewards" "mx_ok values" "mx_ok msk" and bin: "\<And>j. j < mx_cols rewards \<Longrightarrow> entry msk i j = 0 \<or> entry msk i j = 1"
    and res: "gae_advantage_return rewards values msk gamma lam = Inr (whitened, rets)"
    and i: "i < length (mx_rows rewards)" and t: "t < mx_cols rewards"
  defines "ks \<equiv> kept_from (entry msk i) (mx_cols rewards) t"
  shows "entry rets i t = (\<Sum>l<length ks. (gamma * lam) ^ l *
      (entry rewards i (ks ! l) + gamma * (if Suc l < length ks then entry values i (ks ! Suc l) else 0) -
        entry values i (ks ! l))) + entry values i t"
proof -
  let ?n = "length (mx_rows rewards)" and ?c = "mx_cols rewards"
  let ?raw = "from_columns ?n (gae_columns gamma lam rewards values msk ?c (replicate ?n 0) (replicate ?n 0) [])"
  from res have sz: "mx_size values = (?n, ?c)" "mx_size msk = (?n, ?c)" "mx_size rewards = (?n, ?c)"
    and ret: "rets = mx_map2 (+) ?raw values"
    by (auto simp: gae_advantage_return_def result_simps Let_def mx_size_def)
  note R = mx_of_entry [OF assms(1) sz(3)] and V = mx_of_entry [OF assms(2) sz(1)] and M = mx_of_entry [OF assms(3) sz(2)]
  have "gae_columns gamma lam rewards values msk ?c (replicate ?n 0) (replicate ?n 0) [] =
      gae_columns gamma lam (mx_of ?n ?c (entry rewards)) (mx_of ?n ?c (entry values)) (mx_of ?n ?c (entry msk)) ?c
        (replicate ?n 0) (replicate ?n 0) []"
    using R V M by simp
  then have raw: "entry ?raw i t = gae_sum gamma lam (entry rewards i) (entry values i) ks"
    using gae_raw [where m = "entry msk" and r = "entry rewards" and v = "entry values", OF i t bin] by (simp add: ks_def)
  have "rets = mx_map2 (+) (mx_of ?n ?c (entry ?raw)) (mx_of ?n ?c (entry values))"
    unfolding ret from_columns_of [symmetric] V [symmetric] by (rule refl)
  then have "entry rets i t = entry ?raw i t + entry values i t"
    using i t by (simp add: mx_entries)
  then show ?thesis unfolding raw gae_sum_closed .
qed

theorem gae_closed_form_witness:
  "entry (mx_map2 (+) (from_columns 1 (gae_columns (1 / 2) 1 \<lparr> mx_cols = 3, mx_rows = [[0, 0, 8]] \<rparr>
     \<lparr> mx_cols = 3, mx_rows = [[1, 2, 4]] \<rparr> \<lparr> mx_cols = 3, mx_rows = [[1, 0, 1]] \<rparr> 3 [0] [0] []))
     \<lparr> mx_cols = 3, mx_rows = [[1, 2, 4]] \<rparr>) 0 0 = 4"
proof -
  let ?r = "\<lparr> mx_cols = 3, mx_rows = [[0, 0, 8]] \<rparr>" and ?v = "\<lparr> mx_cols = 3, mx_rows = [[1, 2, 4]] \<rparr>"
    and ?m = "\<lparr> mx_cols = 3, mx_rows = [[1, 0, 1]] \<rparr>"
  have "\<exists>w. gae_advantage_return ?r ?v ?m (1 / 2) 1 = Inr (w, mx_map2 (+) (from_columns 1 (gae_columns (1 / 2) 1 ?r ?v ?m 3 [0] [0] [])) ?v)"
    by (simp add: gae_advantage_return_def mx_size_def Let_def)
  then obtain w where w: "gae_advantage_return ?r ?v ?m (1 / 2) 1 =
      Inr (w, mx_map2 (+) (from_columns 1 (gae_columns (1 / 2) 1 ?r ?v ?m 3 [0] [0] [])) ?v)" by blast
  have "[0..<3] = [0, 1, 2 :: nat]" by code_simp
  then have ks: "kept_from (entry ?m 0) 3 0 = [0, 2]" by (simp add: kept_from_def entry_def)
  have bin: "entry ?m 0 j = 0 \<or> entry ?m 0 j = 1" if "j < 3" for j
    using that by (auto simp: entry_def less_Suc_eq numeral_3_eq_3)
  show ?thesis
    using gae_closed_form [OF _ _ _ _ w, of 0 0] ks bin
    by (simp add: mx_ok_def) (simp add: entry_def numeral_2_eq_2)
qed

section \<open>Groups\<close>






lemma length_index_add [simp]: "length (index_add js xs acc) = length acc"
proof -
  have "length (fold (\<lambda>(j, x) acc. acc[j := acc ! j + x]) ps acc) = length acc" for ps :: "(nat \<times> real) list" and acc
    by (induction ps arbitrary: acc) auto
  then show ?thesis by (simp add: index_add_def)
qed
















section \<open>The clipped objective\<close>

lemma clamp_bounds: "lo \<le> hi \<Longrightarrow> lo \<le> clamp lo hi x" "clamp lo hi x \<le> hi"
  by (simp_all add: clamp_def)

text \<open>The dual-clipped objective of a token with advantage \<open>a\<close> and probability ratio \<open>r\<close>.\<close>

definition clipped_objective :: "real \<Rightarrow> real \<Rightarrow> real \<Rightarrow> real \<Rightarrow> real \<Rightarrow> real" where
  "clipped_objective low high c a r =
     (let surrogate = min (a * r) (a * clamp (1 - low) (1 + high) r)
      in if a < 0 then max (c * a) surrogate else surrogate)"

lemma objective_loss:
  "(if a < 0 then min (- a * c) (max (- a * r) (- a * clamp (1 - low) (1 + high) r))
    else max (- a * r) (- a * clamp (1 - low) (1 + high) r)) = - clipped_objective low high c a r"
  by (simp add: clipped_objective_def Let_def minus_min_eq_max minus_max_eq_min mult.commute)

lemma objective_bounds:
  "a < 0 \<Longrightarrow> c * a \<le> clipped_objective low high c a r"
  "0 \<le> a \<Longrightarrow> clipped_objective low high c a r \<le> a * (1 + high)"
proof -
  show "a < 0 \<Longrightarrow> c * a \<le> clipped_objective low high c a r" by (simp add: clipped_objective_def Let_def)
  assume a: "0 \<le> a"
  then have "a * clamp (1 - low) (1 + high) r \<le> a * (1 + high)"
    using clamp_bounds(2) by (intro mult_left_mono) simp_all
  then show "clipped_objective low high c a r \<le> a * (1 + high)" using a by (simp add: clipped_objective_def Let_def)
qed

lemma masked_fraction:
  assumes "\<And>i j. i < n \<Longrightarrow> j < c \<Longrightarrow> 0 \<le> m i j" "\<And>i j. i < n \<Longrightarrow> j < c \<Longrightarrow> 0 \<le> f i j \<and> f i j \<le> 1"
  shows "0 \<le> masked_mean (mx_of n c f) (mx_of n c m) \<and> masked_mean (mx_of n c f) (mx_of n c m) \<le> 1"
proof -
  have "f i j * m i j \<le> m i j" if "i < n" "j < c" for i j
    using mult_right_mono [of "f i j" 1 "m i j"] assms that by simp
  then have "(\<Sum>i<n. \<Sum>j<c. f i j * m i j) \<le> (\<Sum>i<n. \<Sum>j<c. m i j)" by (intro sum_mono) simp
  moreover have "0 \<le> (\<Sum>i<n. \<Sum>j<c. f i j * m i j)" "0 \<le> (\<Sum>i<n. \<Sum>j<c. m i j)"
    using assms by (auto intro!: sum_nonneg)
  moreover have "0 < k_eps" by (simp add: k_eps_def)
  ultimately show ?thesis
    by (simp add: masked_mean_def masked_sum_def mx_entries divide_le_eq)
qed

text \<open>
  Claim C38. With token-mean aggregation the policy loss is minus the masked mean of the dual-clipped
  objective, which for an advantage \<open>a\<close> lies below \<open>a (1 + high)\<close> when \<open>a\<close> is not negative and
  above \<open>c a\<close> when it is; the reported fractions of clipped tokens are between zero and one.
\<close>

theorem ppo_loss_is_clipped_objective:
  fixes clip_ratio clip_low clip_high clip_c :: real
  assumes ok: "mx_ok old" "mx_ok lp" "mx_ok adv" "mx_ok msk"
    and sz: "mx_size old = (n, c)" "mx_size lp = (n, c)" "mx_size adv = (n, c)" "mx_size msk = (n, c)"
    and nonneg: "\<And>i j. i < n \<Longrightarrow> j < c \<Longrightarrow> 0 \<le> entry msk i j" and cc: "clip_c > 1"
  defines "low \<equiv> if clip_low < 0 then clip_ratio else clip_low" and "high \<equiv> if clip_high < 0 then clip_ratio else clip_high"
  defines "ratio \<equiv> \<lambda>i j. exp (clamp (- 20) 20 (entry lp i j - entry old i j))"
  defines "objective \<equiv> \<lambda>i j. clipped_objective low high clip_c (entry adv i j) (ratio i j)"
  shows "\<exists>res. ppo_clipped_loss old lp adv msk clip_ratio clip_low clip_high clip_c 0 = Inr res \<and>
    pg_loss res = - (\<Sum>i<n. \<Sum>j<c. objective i j * entry msk i j) / ((\<Sum>i<n. \<Sum>j<c. entry msk i j) + k_eps) \<and>
    (\<forall>i j. (entry adv i j < 0 \<longrightarrow> clip_c * entry adv i j \<le> objective i j) \<and>
      (0 \<le> entry adv i j \<longrightarrow> objective i j \<le> entry adv i j * (1 + high))) \<and>
    0 \<le> pg_clipfrac res \<and> pg_clipfrac res \<le> 1 \<and> 0 \<le> pg_clipfrac_lower res \<and> pg_clipfrac_lower res \<le> 1"
proof -
  note m = mx_of_entry [OF ok(1) sz(1)] mx_of_entry [OF ok(2) sz(2)] mx_of_entry [OF ok(3) sz(3)] mx_of_entry [OF ok(4) sz(4)]
  define A M where "A = entry adv" and "M = entry msk"
  have obj: "objective = (\<lambda>i j. clipped_objective low high clip_c (A i j) (ratio i j))" by (simp add: objective_def A_def)
  let ?L1 = "\<lambda>i j. - A i j * ratio i j" and ?L2 = "\<lambda>i j. - A i j * clamp (1 - low) (1 + high) (ratio i j)"
  define frac where "frac = masked_mean (mx_of n c (\<lambda>i j. if ?L1 i j < ?L2 i j then 1 else 0)) (mx_of n c M)"
  define frac_lower where "frac_lower = masked_mean (mx_of n c (\<lambda>i j. (if - A i j * clip_c < max (?L1 i j) (?L2 i j) then 1 else 0) *
    (if A i j < 0 then 1 else 0))) (mx_of n c M)"
  define kl where "kl = masked_mean (mx_of n c (\<lambda>i j. - clamp (- 20) 20 (entry lp i j - entry old i j))) (mx_of n c M)"
  define loss where "loss = masked_sum (mx_of n c (\<lambda>i j. - objective i j)) (mx_of n c M) / (mx_sum (mx_of n c M) + k_eps)"
  have "ppo_clipped_loss (mx_of n c (entry old)) (mx_of n c (entry lp)) (mx_of n c A) (mx_of n c M) clip_ratio clip_low clip_high clip_c 0 =
      Inr \<lparr> pg_loss = loss, pg_clipfrac = frac, ppo_kl = kl, pg_clipfrac_lower = frac_lower \<rparr>"
    using cc unfolding ppo_clipped_loss_def Let_def mx_entries(4-6) low_def [symmetric] high_def [symmetric] ratio_def [symmetric]
    by (simp add: aggregate_loss_def throw_if_def loss_def frac_def frac_lower_def kl_def objective_loss obj)
  then have r: "ppo_clipped_loss old lp adv msk clip_ratio clip_low clip_high clip_c 0 =
      Inr \<lparr> pg_loss = loss, pg_clipfrac = frac, ppo_kl = kl, pg_clipfrac_lower = frac_lower \<rparr>"
    using m unfolding A_def M_def by simp
  have l: "loss = - (\<Sum>i<n. \<Sum>j<c. objective i j * entry msk i j) / ((\<Sum>i<n. \<Sum>j<c. entry msk i j) + k_eps)"
    by (simp add: loss_def masked_sum_def mx_entries M_def sum_negf)
  have "0 \<le> frac \<and> frac \<le> 1" unfolding frac_def by (rule masked_fraction) (use nonneg in \<open>auto simp: M_def\<close>)
  moreover have "0 \<le> frac_lower \<and> frac_lower \<le> 1"
    unfolding frac_lower_def by (rule masked_fraction) (use nonneg in \<open>auto simp: M_def\<close>)
  moreover have "\<forall>i j. (entry adv i j < 0 \<longrightarrow> clip_c * entry adv i j \<le> objective i j) \<and>
      (0 \<le> entry adv i j \<longrightarrow> objective i j \<le> entry adv i j * (1 + high))"
    unfolding objective_def using objective_bounds by blast
  ultimately show ?thesis
    using r l by (intro exI [of _ "\<lparr> pg_loss = loss, pg_clipfrac = frac, ppo_kl = kl, pg_clipfrac_lower = frac_lower \<rparr>"]) simp
qed

theorem ppo_loss_is_clipped_objective_witness:
  "\<exists>res. ppo_clipped_loss (mx_of 1 1 (\<lambda>_ _. 0)) (mx_of 1 1 (\<lambda>_ _. 0)) (mx_of 1 1 (\<lambda>_ _. - 2)) (mx_of 1 1 (\<lambda>_ _. 1))
      (1 / 5) (- 1) (- 1) 3 0 = Inr res \<and> pg_loss res = 2 / (1 + k_eps)"
proof -
  have ok: "mx_ok (mx_of 1 1 f)" for f by (simp add: mx_ok_def mx_of_def)
  have "clipped_objective (1 / 5) (1 / 5) 3 (- 2) (exp (clamp (- 20) 20 (0 - 0))) = - 2"
    by (simp add: clipped_objective_def clamp_def Let_def)
  then show ?thesis
    using ppo_loss_is_clipped_objective [OF ok [of "\<lambda>_ _. 0"] ok [of "\<lambda>_ _. 0"] ok [of "\<lambda>_ _. - 2"] ok [of "\<lambda>_ _. 1"] mx_size_of mx_size_of mx_size_of mx_size_of, where clip_c = 3
        and clip_ratio = "1 / 5" and clip_low = "- 1" and clip_high = "- 1"]
    by (auto simp: mx_entries)
qed

end
