(* ===== verification/Grpo_Batch.thy ===== *)
theory Grpo_Batch
  imports Rollout_Batch Core_Algos
begin



lemma length_mask_row [simp]: "length (mask_row l n) = n"
  by (simp add: mask_row_def)




end
