(* ===== verification/Spec2Isabelle.thy ===== *)
theory Spec2Isabelle
  imports Pipeline_Run Shm_Transport Optimizer_Sharding Bpe_Tokenizer Weight_Sync Sharded_Adamw Grpo_Batch
begin

text \<open>
  A verification development for cverl, a C++ library for reinforcement-learning post-training of
  language models. (Header: see the end of the sitting.)
\<close>

end
